theory Spec2Isabelle
  imports Main "HOL-Library.AList" "HOL-Library.Log_Nat"
begin

section \<open>Python values and documents\<close>

text \<open>
  The gene records, the \<open>info\<close> overrides and the parsed lines of the program are Python
  dictionaries with string keys. A dictionary is an association list in insertion order with
  distinct keys: \<open>map_of d k\<close> is the lookup, \<open>AList.update k v d\<close> is \<open>d[k] = v\<close>
  (the value is replaced where the key already is, a new key goes to the end) and
  \<open>AList.delete k d\<close> is \<open>d.pop(k)\<close> on a key that is there.
  The values that occur are \<open>None\<close>, booleans, integers, strings and lists.
\<close>

datatype pyval = PNone | PBool bool | PInt int | PStr string | PList "pyval list"

type_synonym pydict = "(string \<times> pyval) list"

text \<open>
  The exceptions. A \<open>SyntaxError\<close> carries what its message says: the \<open>hgnc_id\<close> is not
  an integer, there is no identifier, or line \<open>i\<close> is malformed.
\<close>

datatype syntax_error = InvalidHgncId | NoIdentifier | LineMalformed nat

datatype error = KeyError string | ValueError | TypeError | IndexError
  | SyntaxError syntax_error | DuplicateKeyError

text \<open>The truth value Python gives a value in \<open>if v:\<close>.\<close>

fun truthy :: "pyval \<Rightarrow> bool" where
  "truthy PNone = False"
| "truthy (PBool b) = b"
| "truthy (PInt n) = (n \<noteq> 0)"
| "truthy (PStr s) = (s \<noteq> [])"
| "truthy (PList xs) = (xs \<noteq> [])"

text \<open>\<open>d.get(k)\<close>: the value, or \<open>None\<close> where the key is missing.\<close>

definition dict_get :: "pydict \<Rightarrow> string \<Rightarrow> pyval" where
  "dict_get d k = (case map_of d k of None \<Rightarrow> PNone | Some v \<Rightarrow> v)"

text \<open>
  A value used as a dictionary key is hashed: a list raises \<open>TypeError\<close>, and \<open>True\<close> and
  \<open>False\<close> are the keys \<open>1\<close> and \<open>0\<close> (they hash and compare equal). \<open>dict_key\<close> gives
  the representative under which a value is stored and looked up.
\<close>

fun dict_key :: "pyval \<Rightarrow> error + pyval" where
  "dict_key (PList xs) = Inl TypeError"
| "dict_key (PBool b) = Inr (PInt (if b then 1 else 0))"
| "dict_key v = Inr v"

section \<open>The panel parser\<close>

subsection \<open>Strings\<close>

text \<open>
  A line of a panel file is a string of ASCII characters. The string methods of Python that
  the parser calls, on such strings: for \<open>strip\<close> and \<open>rstrip\<close> white space is the
  characters 9 to 13, 28 to 31 and the space; \<open>int\<close> takes an optional sign and decimal
  digits, with single underscores between digits, and around them the characters 9 to 13 and
  the space only, and raises \<open>ValueError\<close> (\<open>None\<close> here) on anything else.
\<close>

definition isspace :: "char \<Rightarrow> bool" where
  "isspace c = (let n = (of_char c :: nat) in (9 \<le> n \<and> n \<le> 13) \<or> (28 \<le> n \<and> n \<le> 32))"

definition rstrip :: "string \<Rightarrow> string" where
  "rstrip s = rev (dropWhile isspace (rev s))"

definition strip :: "string \<Rightarrow> string" where
  "strip s = dropWhile isspace (rstrip s)"

definition startswith :: "string \<Rightarrow> string \<Rightarrow> bool" where
  "startswith s p = (take (length p) s = p)"

text \<open>\<open>sub in s\<close> for strings.\<close>

fun contains :: "string \<Rightarrow> string \<Rightarrow> bool" where
  "contains sub [] = (sub = [])"
| "contains sub (c # s) = (startswith (c # s) sub \<or> contains sub s)"

text \<open>\<open>s.split(d)\<close> for a separator of one character.\<close>

fun split :: "char \<Rightarrow> string \<Rightarrow> string list" where
  "split d [] = [[]]"
| "split d (c # s) =
     (if c = d then [] # split d s
      else (case split d s of [] \<Rightarrow> [[c]] | w # ws \<Rightarrow> (c # w) # ws))"

definition lower :: "string \<Rightarrow> string" where
  "lower s = map (\<lambda>c. let n = (of_char c :: nat) in
                        if 65 \<le> n \<and> n \<le> 90 then char_of (n + 32) else c) s"

definition is_digit :: "char \<Rightarrow> bool" where
  "is_digit c = (let n = (of_char c :: nat) in 48 \<le> n \<and> n \<le> 57)"

definition isdigit :: "string \<Rightarrow> bool" where
  "isdigit s = (s \<noteq> [] \<and> list_all is_digit s)"

fun int_body :: "string \<Rightarrow> bool" where
  "int_body [] = False"
| "int_body [c] = is_digit c"
| "int_body (c # d # s) =
     (if is_digit c then (if d = CHR ''_'' then int_body s else int_body (d # s)) else False)"

definition digits_value :: "string \<Rightarrow> int" where
  "digits_value s =
     foldl (\<lambda>n c. 10 * n + int (of_char c - 48)) 0 (filter (\<lambda>c. c \<noteq> CHR ''_'') s)"

definition int_space :: "char \<Rightarrow> bool" where
  "int_space c = (let n = (of_char c :: nat) in (9 \<le> n \<and> n \<le> 13) \<or> n = 32)"

definition py_int :: "string \<Rightarrow> int option" where
  "py_int s =
     (let s = dropWhile int_space (rev (dropWhile int_space (rev s)));
          (sign, body) = (case s of
                            [] \<Rightarrow> (1, [])
                          | c # r \<Rightarrow> if c = CHR ''-'' then (- 1, r)
                                     else if c = CHR ''+'' then (1, r) else (1, s))
      in if int_body body then Some (sign * digits_value body) else None)"

subsection \<open>\<open>parse_gene\<close>\<close>

text \<open>
  \<open>gene_info\<close> is the dictionary of one line: column names to the strings of the line.
  \<open>first_key\<close> is a chain \<open>if k1 in d: x = d[k1] elif k2 in d: x = d[k2] ...\<close>: the value
  under the first of the keys that is in the dictionary.
\<close>

type_synonym strdict = "(string \<times> string) list"

fun first_key :: "string list \<Rightarrow> strdict \<Rightarrow> string option" where
  "first_key [] d = None"
| "first_key (k # ks) d = (case map_of d k of Some v \<Rightarrow> Some v | None \<Rightarrow> first_key ks d)"

definition VALID_MODELS :: "string list" where
  "VALID_MODELS = [''AR'', ''AD'', ''MT'', ''XD'', ''XR'', ''X'', ''Y'']"

definition parse_gene :: "strdict \<Rightarrow> error + pydict" where
  "parse_gene gene_info =
     (case (case first_key [''hgnc_id'', ''hgnc_idnumber'', ''hgncid''] gene_info of
              None \<Rightarrow> Inr PNone
            | Some s \<Rightarrow> (case py_int s of
                           None \<Rightarrow> Inl (SyntaxError InvalidHgncId)
                         | Some n \<Rightarrow> Inr (PInt n))) of
        Inl e \<Rightarrow> Inl e
      | Inr hgnc_id \<Rightarrow>
         (let identifier = hgnc_id;
              hgnc_symbol = (case first_key [''hgnc_symbol'', ''hgncsymbol'', ''symbol''] gene_info of
                               None \<Rightarrow> PNone
                             | Some s \<Rightarrow> PStr s)
          in case (if \<not> truthy identifier then
                     (if truthy hgnc_symbol then Inr hgnc_symbol
                      else Inl (SyntaxError NoIdentifier))
                   else Inr identifier) of
               Inl e \<Rightarrow> Inl e
             | Inr identifier \<Rightarrow>
                (let transcripts =
                       (case first_key [''disease_associated_transcripts'',
                                        ''disease_associated_transcript'', ''transcripts''] gene_info of
                          None \<Rightarrow> [] | Some s \<Rightarrow> s);
                     models =
                       (case first_key [''genetic_disease_models'', ''genetic_disease_model'',
                                        ''inheritance_models'', ''genetic_inheritance_models''] gene_info of
                          None \<Rightarrow> [] | Some s \<Rightarrow> s)
                 in Inr [(''hgnc_id'', hgnc_id),
                         (''hgnc_symbol'', hgnc_symbol),
                         (''identifier'', identifier),
                         (''transcripts'',
                            PList (map (\<lambda>transcript. PStr (strip transcript))
                                     (filter (\<lambda>transcript. transcript \<noteq> [])
                                        (split (CHR '','') transcripts)))),
                         (''inheritance_models'',
                            PList (map (\<lambda>model. PStr (strip model))
                                     (filter (\<lambda>model. strip model \<in> set VALID_MODELS)
                                        (split (CHR '','') models)))),
                         (''mosaicism'',
                            PBool (case map_of gene_info ''mosaicism'' of
                                     None \<Rightarrow> False | Some s \<Rightarrow> s \<noteq> [])),
                         (''reduced_penetrance'',
                            PBool (case map_of gene_info ''reduced_penetrance'' of
                                     None \<Rightarrow> False | Some s \<Rightarrow> s \<noteq> [])),
                         (''database_entry_version'',
                            (case map_of gene_info ''database_entry_version'' of
                               None \<Rightarrow> PNone | Some s \<Rightarrow> PStr s))])))"

subsection \<open>\<open>parse_genes\<close>\<close>

text \<open>\<open>dict(zip(header, splitted_line))\<close>: a later column of the same name replaces the value.\<close>

definition dict_zip :: "string list \<Rightarrow> string list \<Rightarrow> strdict" where
  "dict_zip header splitted_line =
     fold (\<lambda>(k, v) d. AList.update k v d) (zip header splitted_line) []"

text \<open>
  What the body of the loop does with line \<open>i\<close> before it looks at the identifier: the
  header and the delimiter after the line, and the gene parsed from the line, with its key
  \<open>identifier\<close> (\<open>None\<close> where the loop goes on to the next line without a gene). Any
  exception of \<open>parse_gene\<close> becomes the \<open>SyntaxError\<close> of the line.
\<close>

definition parse_line ::
  "nat \<Rightarrow> string \<Rightarrow> string list \<Rightarrow> char \<Rightarrow> error + (string list \<times> char \<times> pydict option)" where
  "parse_line i line header delimiter =
     (let line = rstrip line in
      if \<not> length line > 0 then Inr (header, delimiter, None)
      else if startswith line ''#'' then
        (if \<not> startswith line ''##'' then
           (let delimiter = (if CHR '';'' \<in> set line then CHR '';'' else delimiter);
                header = map lower (split delimiter (drop 1 line))
            in Inr (header, delimiter, None))
         else Inr (header, delimiter, None))
      else
        (let delimiter = (if i = 0 \<and> CHR '';'' \<in> set line then CHR '';'' else delimiter) in
         if i = 0 \<and> (contains ''hgnc'' line \<or> contains ''HGNC'' line) then
           Inr (map lower (split delimiter line), delimiter, None)
         else
           (case (if i = 0 then
                    (case split delimiter line of
                       [] \<Rightarrow> Inl IndexError
                     | w # ws \<Rightarrow> Inr (if isdigit w then [''hgnc_id''] else [''hgnc_symbol'']))
                  else Inr header) of
              Inl e \<Rightarrow> Inl e
            | Inr header \<Rightarrow>
               (let splitted_line = split delimiter line;
                    gene_info = dict_zip header splitted_line;
                    info_found = list_ex (\<lambda>key. case map_of gene_info key of
                                                   None \<Rightarrow> False | Some v \<Rightarrow> v \<noteq> [])
                                   (map fst gene_info)
                in if \<not> info_found then Inr (header, delimiter, None)
                   else (case parse_gene gene_info of
                           Inl e \<Rightarrow> Inl (SyntaxError (LineMalformed i))
                         | Inr gene \<Rightarrow> Inr (header, delimiter, Some gene))))))"

text \<open>
  The loop over the enumerated lines, from line \<open>i\<close>, with the variables \<open>genes\<close>,
  \<open>header\<close>, \<open>hgnc_identifiers\<close> and \<open>delimiter\<close> of the source.
\<close>

fun parse_genes_loop ::
  "nat \<Rightarrow> string list \<Rightarrow> pydict list \<Rightarrow> string list \<Rightarrow> pyval set \<Rightarrow> char \<Rightarrow>
     error + pydict list" where
  "parse_genes_loop i [] genes header hgnc_identifiers delimiter = Inr genes"
| "parse_genes_loop i (line # rest) genes header hgnc_identifiers delimiter =
     (case parse_line i line header delimiter of
        Inl e \<Rightarrow> Inl e
      | Inr (header, delimiter, None) \<Rightarrow>
          parse_genes_loop (Suc i) rest genes header hgnc_identifiers delimiter
      | Inr (header, delimiter, Some gene) \<Rightarrow>
         (case map_of gene ''identifier'' of
            None \<Rightarrow> Inl (KeyError ''identifier'')
          | Some identifier \<Rightarrow>
             (let gene = AList.delete ''identifier'' gene in
              if identifier \<notin> hgnc_identifiers then
                parse_genes_loop (Suc i) rest (genes @ [gene]) header
                  (insert identifier hgnc_identifiers) delimiter
              else parse_genes_loop (Suc i) rest genes header hgnc_identifiers delimiter)))"

definition parse_genes :: "string list \<Rightarrow> error + pydict list" where
  "parse_genes gene_lines = parse_genes_loop 0 gene_lines [] [] {} (CHR 0x09)"

section \<open>Version numbers\<close>

text \<open>
  The version of a panel is a Python float (\<open>float(version)\<close>, \<open>version=1.0\<close>), an IEEE
  double. Every finite double is a whole multiple of \<open>2 ^ -1074\<close>: \<open>Double x\<close> is the double
  of the value \<open>x * 2 ^ -1074\<close>, so that equal doubles are equal values; infinities and NaN
  are left out. \<open>whole n\<close> is the value \<open>n\<close> on this scale, a double for every integer up to
  \<open>2 ^ 53\<close> in magnitude.
\<close>

datatype pyfloat = Double int

definition whole :: "int \<Rightarrow> pyfloat" where
  "whole n = Double (n * 2 ^ 1074)"

text \<open>
  Rounding of an exact value on that scale to a double: to 53 significant bits, to the
  nearest, a tie to the even one.
\<close>

definition round_double :: "int \<Rightarrow> int" where
  "round_double s =
     (let a = \<bar>s\<bar>;
          q = 2 ^ nat (bitlen a - 53);
          lo = a div q;
          r = a mod q
      in sgn s * (if 2 * r > q \<or> (2 * r = q \<and> odd lo) then lo + 1 else lo) * q)"

text \<open>
  \<open>x + 1\<close> for a float \<open>x\<close>: the exact sum, rounded. The sum of a finite double and 1 is
  below the largest double or rounds to it, so there is no overflow.
\<close>

fun add_one :: "pyfloat \<Rightarrow> pyfloat" where
  "add_one (Double x) = Double (round_double (x + 2 ^ 1074))"

section \<open>Panels, pending changes and the panel collection\<close>

text \<open>
  A pending change is the dictionary \<open>add_pending\<close> builds, always with the four keys
  \<open>hgnc_id\<close>, \<open>action\<close>, \<open>info\<close> and \<open>symbol\<close>.
\<close>

record pending_action =
  hgnc_id :: pyval
  action :: string
  info :: pydict
  symbol :: pyval

text \<open>
  A panel document. \<open>oid\<close> is the key \<open>_id\<close> (\<open>None\<close>: the key is missing, as after
  \<open>pop('_id')\<close>), \<open>pending\<close> and \<open>is_archived\<close> are \<open>None\<close> where the document has no such
  key; \<open>date\<close> is a timestamp, \<open>version\<close> a float. All other keys of a document are the
  extension of the record.
\<close>

record panel =
  oid :: "nat option"
  panel_name :: string
  version :: pyfloat
  date :: nat
  genes :: "pydict list"
  pending :: "pending_action list option"
  is_archived :: "bool option"

text \<open>The collection maps \<open>_id\<close> to the stored document.\<close>

type_synonym 'm collection = "nat \<rightharpoonup> 'm panel_scheme"

text \<open>
  \<open>insert_one\<close> on a document without \<open>_id\<close>: the driver generates an ObjectId (\<open>new_id\<close>),
  writes it into the document and stores the document; an \<open>_id\<close> that is already in the
  collection is a duplicate key error.
\<close>

definition insert_one ::
  "'m collection \<Rightarrow> 'm panel_scheme \<Rightarrow> nat \<Rightarrow>
     error + ('m collection \<times> 'm panel_scheme)" where
  "insert_one coll doc new_id =
     (let i = (case oid doc of None \<Rightarrow> new_id | Some j \<Rightarrow> j) in
      if coll i \<noteq> None then Inl DuplicateKeyError
      else Inr (coll(i \<mapsto> doc\<lparr>oid := Some i\<rparr>), doc\<lparr>oid := Some i\<rparr>))"

text \<open>
  \<open>find_one_and_replace({'_id': i}, doc, return_document=AFTER)\<close>: the stored document with
  that \<open>_id\<close> is replaced (it keeps its \<open>_id\<close>) and returned; \<open>None\<close> where there is none.
\<close>

definition find_one_and_replace ::
  "'m collection \<Rightarrow> nat \<Rightarrow> 'm panel_scheme \<Rightarrow>
     'm collection \<times> 'm panel_scheme option" where
  "find_one_and_replace coll i doc =
     (case coll i of
        None \<Rightarrow> (coll, None)
      | Some _ \<Rightarrow> (coll(i \<mapsto> doc\<lparr>oid := Some i\<rparr>), Some (doc\<lparr>oid := Some i\<rparr>)))"

text \<open>
  \<open>find_one_and_update({'_id': i}, {'$push': {'pending': x}}, return_document=AFTER)\<close>:
  \<open>x\<close> is appended to the array \<open>pending\<close> of the stored document (an array of one element
  where the key was missing).
\<close>

definition find_one_and_push ::
  "'m collection \<Rightarrow> nat \<Rightarrow> pending_action \<Rightarrow>
     'm collection \<times> 'm panel_scheme option" where
  "find_one_and_push coll i x =
     (case coll i of
        None \<Rightarrow> (coll, None)
      | Some doc \<Rightarrow>
          (let doc' = doc\<lparr>pending := Some ((case pending doc of None \<Rightarrow> [] | Some ps \<Rightarrow> ps) @ [x])\<rparr>
           in (coll(i \<mapsto> doc'), Some doc')))"

section \<open>\<open>PanelHandler\<close>\<close>

subsection \<open>\<open>update_panel\<close>\<close>

text \<open>
  Sets \<open>panel_obj['date']\<close> to the current time (\<open>now\<close>) and replaces the stored document.
  Returns the collection, the caller's \<open>panel_obj\<close> as it is afterwards, and the updated
  document.
\<close>

definition update_panel ::
  "'m collection \<Rightarrow> 'm panel_scheme \<Rightarrow> nat \<Rightarrow>
     error + ('m collection \<times> 'm panel_scheme \<times> 'm panel_scheme option)" where
  "update_panel coll panel_obj now =
     (let panel_obj = panel_obj\<lparr>date := now\<rparr> in
      case oid panel_obj of
        None \<Rightarrow> Inl (KeyError ''_id'')
      | Some i \<Rightarrow>
          (let (coll', updated_panel) = find_one_and_replace coll i panel_obj
           in Inr (coll', panel_obj, updated_panel)))"

subsection \<open>\<open>add_pending\<close>\<close>

text \<open>
  The result is the collection after the call together with the outcome: the exception
  raised, or the document returned. \<open>info\<close> is \<open>None\<close> where the argument is left out.
\<close>

definition valid_actions :: "string list" where
  "valid_actions = [''add'', ''delete'', ''edit'']"

definition add_pending ::
  "'m collection \<Rightarrow> 'm panel_scheme \<Rightarrow> pydict \<Rightarrow> string \<Rightarrow> pydict option \<Rightarrow>
     'm collection \<times> (error + 'm panel_scheme option)" where
  "add_pending coll panel_obj hgnc_gene act info' =
     (if act \<notin> set valid_actions then (coll, Inl ValueError)
      else
        let info' = (case info' of None \<Rightarrow> [] | Some d \<Rightarrow> if d = [] then [] else d) in
        case map_of hgnc_gene ''hgnc_id'' of
          None \<Rightarrow> (coll, Inl (KeyError ''hgnc_id''))
        | Some gid \<Rightarrow>
           (case map_of hgnc_gene ''hgnc_symbol'' of
              None \<Rightarrow> (coll, Inl (KeyError ''hgnc_symbol''))
            | Some label \<Rightarrow>
               (let pending_action = \<lparr>hgnc_id = gid, action = act, info = info', symbol = label\<rparr> in
                case oid panel_obj of
                  None \<Rightarrow> (coll, Inl (KeyError ''_id''))
                | Some i \<Rightarrow>
                    (let (coll', updated_panel) = find_one_and_push coll i pending_action
                     in (coll', Inr updated_panel)))))"

subsection \<open>\<open>apply_pending\<close>\<close>

text \<open>
  One of the five \<open>if info.get(f): gene[f] = info[f]\<close> statements, and the five of them in
  the order of the source. The same five statements build the gene of an \<open>add\<close> and edit the
  gene of an \<open>edit\<close>.
\<close>

definition set_field :: "pydict \<Rightarrow> string \<Rightarrow> pydict \<Rightarrow> pydict" where
  "set_field info' f gene =
     (if truthy (dict_get info' f) then AList.update f (dict_get info' f) gene else gene)"

definition apply_info :: "pydict \<Rightarrow> pydict \<Rightarrow> pydict" where
  "apply_info info' gene =
     (let gene = set_field info' ''disease_associated_transcripts'' gene;
          gene = set_field info' ''inheritance_models'' gene;
          gene = set_field info' ''reduced_penetrance'' gene;
          gene = set_field info' ''mosaicism'' gene;
          gene = set_field info' ''database_entry_version'' gene
      in gene)"

text \<open>The gene object created for an \<open>add\<close>.\<close>

definition gene_obj :: "pending_action \<Rightarrow> pydict" where
  "gene_obj update =
     apply_info (info update) [(''hgnc_id'', hgnc_id update), (''symbol'', symbol update)]"

text \<open>
  The first loop, over the pending changes: an \<open>add\<close> appends its gene object to
  \<open>new_genes\<close>, any other change is stored in the dictionary \<open>updates\<close> under its
  \<open>hgnc_id\<close>.
\<close>

fun pending_loop ::
  "pending_action list \<Rightarrow> pydict list \<Rightarrow> (pyval \<rightharpoonup> pending_action) \<Rightarrow>
     error + (pydict list \<times> (pyval \<rightharpoonup> pending_action))" where
  "pending_loop [] new_genes updates = Inr (new_genes, updates)"
| "pending_loop (update # rest) new_genes updates =
     (if action update = ''add'' then pending_loop rest (new_genes @ [gene_obj update]) updates
      else
        case dict_key (hgnc_id update) of
          Inl e \<Rightarrow> Inl e
        | Inr k \<Rightarrow> pending_loop rest new_genes (updates(k \<mapsto> update)))"

text \<open>
  The second loop, over \<open>panel_obj['genes']\<close>. An edit assigns into \<open>gene\<close>, which is the
  dictionary in the list of \<open>panel_obj\<close> itself, and appends that same dictionary to
  \<open>new_genes\<close>. The documents of a panel are distinct objects, so the effect on
  \<open>panel_obj['genes']\<close> is the list \<open>visited\<close>, in which each gene visited stands as the loop
  left it. The result is \<open>panel_obj['genes']\<close> after the loop and \<open>new_genes\<close>.
\<close>

fun genes_loop ::
  "(pyval \<rightharpoonup> pending_action) \<Rightarrow> pydict list \<Rightarrow> pydict list \<Rightarrow> pydict list \<Rightarrow>
     error + (pydict list \<times> pydict list)" where
  "genes_loop updates [] visited new_genes = Inr (visited, new_genes)"
| "genes_loop updates (gene # rest) visited new_genes =
     (case map_of gene ''hgnc_id'' of
        None \<Rightarrow> Inl (KeyError ''hgnc_id'')
      | Some gid \<Rightarrow>
         (case dict_key gid of
            Inl e \<Rightarrow> Inl e
          | Inr k \<Rightarrow>
             (case updates k of
                Some current_update \<Rightarrow>
                  (if action current_update = ''delete'' then
                     genes_loop updates rest (visited @ [gene]) new_genes
                   else if action current_update = ''edit'' then
                     (let gene = apply_info (info current_update) gene
                      in genes_loop updates rest (visited @ [gene]) (new_genes @ [gene]))
                   else genes_loop updates rest (visited @ [gene]) new_genes)
              | None \<Rightarrow> genes_loop updates rest (visited @ [gene]) (new_genes @ [gene]))))"

text \<open>\<open>panel_obj.get('pending', [])\<close>.\<close>

definition pending_of :: "'m panel_scheme \<Rightarrow> pending_action list" where
  "pending_of panel_obj = (case pending panel_obj of None \<Rightarrow> [] | Some ps \<Rightarrow> ps)"

text \<open>
  \<open>apply_pending\<close>. \<open>now\<close> and \<open>now'\<close> are the two readings of the clock, \<open>new_id\<close> the
  ObjectId generated for the new document. The result is the panel returned, the caller's
  \<open>panel_obj\<close> as it is after the call, and the collection after the call. Every exception
  is raised before the collection is written; what \<open>panel_obj\<close> is after an exception is
  not part of the result.
\<close>

definition apply_pending ::
  "'m collection \<Rightarrow> 'm panel_scheme \<Rightarrow> nat \<Rightarrow> nat \<Rightarrow> nat \<Rightarrow>
     error + ('m panel_scheme \<times> 'm panel_scheme \<times> 'm collection)" where
  "apply_pending coll panel_obj now new_id now' =
     (case oid panel_obj of
        None \<Rightarrow> Inl (KeyError ''_id'')
      | Some _ \<Rightarrow>
        (let new_panel = panel_obj\<lparr>oid := None, pending := Some [], date := now\<rparr> in
         case pending_loop (pending_of panel_obj) [] Map.empty of
           Inl e \<Rightarrow> Inl e
         | Inr (new_genes, updates) \<Rightarrow>
            (case genes_loop updates (genes panel_obj) [] new_genes of
               Inl e \<Rightarrow> Inl e
             | Inr (base_genes, new_genes) \<Rightarrow>
                (let panel_obj = panel_obj\<lparr>genes := base_genes\<rparr>;
                     new_panel = new_panel\<lparr>genes := new_genes, version := add_one (version panel_obj)\<rparr>
                 in case insert_one coll new_panel new_id of
                      Inl e \<Rightarrow> Inl e
                    | Inr (coll, new_panel) \<Rightarrow>
                       (let panel_obj = panel_obj\<lparr>is_archived := Some True\<rparr> in
                        case update_panel coll panel_obj now' of
                          Inl e \<Rightarrow> Inl e
                        | Inr (coll, panel_obj, _) \<Rightarrow> Inr (new_panel, panel_obj, coll))))))"

subsection \<open>\<open>clinical_symbols\<close>\<close>


section \<open>Notions used in the statements\<close>

text \<open>
  The last change of a queue that is not an \<open>add\<close> and is stored under the key \<open>k\<close>; the
  key under which a gene is looked up (\<open>None\<close> where \<open>gene['hgnc_id']\<close> raises or cannot
  be hashed); what a gene of the base panel contributes to the new gene list under a
  dictionary of updates, and what it is in the base panel afterwards.
\<close>

definition last_update :: "pending_action list \<Rightarrow> pyval \<Rightarrow> pending_action option" where
  "last_update ps k =
     List.find (\<lambda>u. action u \<noteq> ''add'' \<and> dict_key (hgnc_id u) = Inr k) (rev ps)"

definition gene_key :: "pydict \<Rightarrow> pyval option" where
  "gene_key gene =
     (case map_of gene ''hgnc_id'' of
        None \<Rightarrow> None
      | Some gid \<Rightarrow> (case dict_key gid of Inl e \<Rightarrow> None | Inr k \<Rightarrow> Some k))"

definition carried :: "(pyval \<rightharpoonup> pending_action) \<Rightarrow> pydict \<Rightarrow> pydict list" where
  "carried updates gene =
     (case gene_key gene of
        None \<Rightarrow> []
      | Some k \<Rightarrow>
         (case updates k of
            None \<Rightarrow> [gene]
          | Some u \<Rightarrow> if action u = ''edit'' then [apply_info (info u) gene] else []))"

definition edited :: "(pyval \<rightharpoonup> pending_action) \<Rightarrow> pydict \<Rightarrow> pydict" where
  "edited updates gene =
     (case gene_key gene of
        None \<Rightarrow> gene
      | Some k \<Rightarrow>
         (case updates k of
            None \<Rightarrow> gene
          | Some u \<Rightarrow> if action u = ''edit'' then apply_info (info u) gene else gene))"

text \<open>The five optional fields that an \<open>info\<close> can override.\<close>

definition optional_fields :: "string list" where
  "optional_fields = [''disease_associated_transcripts'', ''inheritance_models'',
     ''reduced_penetrance'', ''mosaicism'', ''database_entry_version'']"

text \<open>
  The identifier of a gene record of the parser, as \<open>parse_gene\<close> chooses it: the
  \<open>hgnc_id\<close> where there is one (and it is not 0), the \<open>hgnc_symbol\<close> otherwise.
\<close>

definition identifier_of :: "pydict \<Rightarrow> pyval" where
  "identifier_of gene =
     (if truthy (dict_get gene ''hgnc_id'') then dict_get gene ''hgnc_id''
      else dict_get gene ''hgnc_symbol'')"

text \<open>
  The genes of all the lines of a file in the order of the file, each with its key
  \<open>identifier\<close>, before any duplicate is dropped: \<open>parse_line\<close> on each line, with the
  header and the delimiter passed on as the loop passes them on.
\<close>

fun parsed_lines :: "nat \<Rightarrow> string list \<Rightarrow> string list \<Rightarrow> char \<Rightarrow> error + pydict list" where
  "parsed_lines i [] header delimiter = Inr []"
| "parsed_lines i (line # rest) header delimiter =
     (case parse_line i line header delimiter of
        Inl e \<Rightarrow> Inl e
      | Inr (header, delimiter, g) \<Rightarrow>
         (case parsed_lines (Suc i) rest header delimiter of
            Inl e \<Rightarrow> Inl e
          | Inr gs \<Rightarrow> Inr ((case g of None \<Rightarrow> [] | Some gene \<Rightarrow> [gene]) @ gs)))"

text \<open>
  The elements of a list whose key is not in \<open>S\<close> and is not the key of an earlier element
  of the list, in the order of the list; with \<open>S\<close> empty, the first occurrence of every
  key.
\<close>

definition unseen :: "('a \<Rightarrow> 'b) \<Rightarrow> 'b set \<Rightarrow> 'a list \<Rightarrow> 'a list" where
  "unseen key S rs =
     map snd (filter (\<lambda>(j, r). key r \<notin> S \<union> key ` set (take j rs)) (enumerate 0 rs))"

definition first_occurrences :: "('a \<Rightarrow> 'b) \<Rightarrow> 'a list \<Rightarrow> 'a list" where
  "first_occurrences key rs = unseen key {} rs"

text \<open>The keys of the dictionary that \<open>parse_gene\<close> returns, in the order it sets them.\<close>

definition parsed_keys :: "string list" where
  "parsed_keys = [''hgnc_id'', ''hgnc_symbol'', ''identifier'', ''transcripts'',
     ''inheritance_models'', ''mosaicism'', ''reduced_penetrance'', ''database_entry_version'']"




section \<open>The panels of the examples\<close>

text \<open>
  Version 1 of a panel with the genes \<open>gs\<close> and the pending queue \<open>ps\<close>, and the collection
  that holds it under \<open>_id\<close> 1.
\<close>

definition panel_v1 :: "pydict list \<Rightarrow> pending_action list \<Rightarrow> panel" where
  "panel_v1 gs ps = \<lparr>oid = Some 1, panel_name = ''panel'', version = whole 1, date = 0,
     genes = gs, pending = Some ps, is_archived = None\<rparr>"

definition store_v1 :: "pydict list \<Rightarrow> pending_action list \<Rightarrow> unit collection" where
  "store_v1 gs ps = [1 \<mapsto> panel_v1 gs ps]"

text \<open>
  The panels after \<open>apply_pending\<close> at time 5, with the new \<open>_id\<close> 2 and the base archived
  at time 6: the new version with its genes, the base with its genes, and the collection.
\<close>

definition panel_v2 :: "pydict list \<Rightarrow> panel" where
  "panel_v2 gs = \<lparr>oid = Some 2, panel_name = ''panel'', version = whole 2, date = 5,
     genes = gs, pending = Some [], is_archived = None\<rparr>"

definition panel_v1_archived :: "pydict list \<Rightarrow> pending_action list \<Rightarrow> panel" where
  "panel_v1_archived gs ps = \<lparr>oid = Some 1, panel_name = ''panel'', version = whole 1, date = 6,
     genes = gs, pending = Some ps, is_archived = Some True\<rparr>"

definition store_v2 :: "pydict list \<Rightarrow> pydict list \<Rightarrow> pending_action list \<Rightarrow> unit collection" where
  "store_v2 gs2 gs1 ps = [2 \<mapsto> panel_v2 gs2, 1 \<mapsto> panel_v1_archived gs1 ps]"

text \<open>The genes and the pending changes of the examples.\<close>

definition gene_A :: pydict where
  "gene_A = [(''hgnc_id'', PInt 1), (''symbol'', PStr ''A'')]"

definition gene_B :: pydict where
  "gene_B = [(''hgnc_id'', PInt 2), (''symbol'', PStr ''B'')]"

definition gene_C :: pydict where
  "gene_C = [(''hgnc_id'', PInt 3), (''symbol'', PStr ''C'')]"

definition gene_A_mosaic :: pydict where
  "gene_A_mosaic = [(''hgnc_id'', PInt 1), (''symbol'', PStr ''A''), (''mosaicism'', PBool True)]"

definition gene_A2 :: pydict where
  "gene_A2 = [(''hgnc_id'', PInt 1), (''symbol'', PStr ''A2'')]"

definition edit_A_mosaic :: pending_action where
  "edit_A_mosaic = \<lparr>hgnc_id = PInt 1, action = ''edit'',
     info = [(''mosaicism'', PBool True)], symbol = PStr ''A''\<rparr>"

definition edit_A_not_mosaic :: pending_action where
  "edit_A_not_mosaic = \<lparr>hgnc_id = PInt 1, action = ''edit'',
     info = [(''mosaicism'', PBool False)], symbol = PStr ''A''\<rparr>"

definition delete_A :: pending_action where
  "delete_A = \<lparr>hgnc_id = PInt 1, action = ''delete'', info = [], symbol = PStr ''A''\<rparr>"

definition delete_B :: pending_action where
  "delete_B = \<lparr>hgnc_id = PInt 2, action = ''delete'', info = [], symbol = PStr ''B''\<rparr>"

definition add_C :: pending_action where
  "add_C = \<lparr>hgnc_id = PInt 3, action = ''add'', info = [], symbol = PStr ''C''\<rparr>"

definition add_A2 :: pending_action where
  "add_A2 = \<lparr>hgnc_id = PInt 1, action = ''add'', info = [], symbol = PStr ''A2''\<rparr>"

text \<open>A gene of the gene collection, as \<open>add_pending\<close> receives it.\<close>

definition hgnc_gene_C :: pydict where
  "hgnc_gene_C = [(''hgnc_id'', PInt 3), (''hgnc_symbol'', PStr ''C'')]"

text \<open>
  A panel file with a header line and four gene lines, the last a second line for the
  \<open>hgnc_id\<close> 1; a gene as \<open>parse_gene\<close> returns it, and as \<open>parse_genes\<close> returns it.
\<close>

definition panel_file :: "string list" where
  "panel_file = [''#hgnc_id;hgnc_symbol'', ''1;A'', ''2;B'' @ [CHR 0x0A], ''1;A2'']"

definition parsed_record :: "int \<Rightarrow> string \<Rightarrow> pydict" where
  "parsed_record n label =
     [(''hgnc_id'', PInt n), (''hgnc_symbol'', PStr label), (''identifier'', PInt n),
      (''transcripts'', PList []), (''inheritance_models'', PList []),
      (''mosaicism'', PBool False), (''reduced_penetrance'', PBool False),
      (''database_entry_version'', PNone)]"

definition parsed_gene :: "int \<Rightarrow> string \<Rightarrow> pydict" where
  "parsed_gene n label =
     [(''hgnc_id'', PInt n), (''hgnc_symbol'', PStr label),
      (''transcripts'', PList []), (''inheritance_models'', PList []),
      (''mosaicism'', PBool False), (''reduced_penetrance'', PBool False),
      (''database_entry_version'', PNone)]"

text \<open>
  A panel with the version 9007199254740992.0, which is \<open>2 ^ 53\<close>, and the panels after
  \<open>apply_pending\<close> on it.
\<close>

definition panel_big :: panel where
  "panel_big = \<lparr>oid = Some 1, panel_name = ''panel'', version = whole 9007199254740992, date = 0,
     genes = [gene_A], pending = Some [], is_archived = None\<rparr>"

definition panel_big_new :: panel where
  "panel_big_new = \<lparr>oid = Some 2, panel_name = ''panel'', version = whole 9007199254740992,
     date = 5, genes = [gene_A], pending = Some [], is_archived = None\<rparr>"

definition panel_big_archived :: panel where
  "panel_big_archived = \<lparr>oid = Some 1, panel_name = ''panel'', version = whole 9007199254740992,
     date = 6, genes = [gene_A], pending = Some [], is_archived = Some True\<rparr>"


section \<open>Adding 1 to a version\<close>

lemma round_double_exact:
  assumes "2 ^ nat (bitlen \<bar>s\<bar> - 53) dvd s"
  shows "round_double s = s"
proof -
  let ?q = "(2::int) ^ nat (bitlen \<bar>s\<bar> - 53)"
  from assms have d: "?q dvd \<bar>s\<bar>" by simp
  then have "\<bar>s\<bar> mod ?q = 0" by simp
  moreover from d have "\<bar>s\<bar> div ?q * ?q = \<bar>s\<bar>" by simp
  moreover have "?q > 0" by simp
  ultimately show ?thesis
    by (simp add: round_double_def Let_def mult.assoc mult_sgn_abs)
qed

lemma round_double_scaled:
  assumes "\<bar>m\<bar> \<le> 2 ^ 53"
  shows "round_double (m * 2 ^ k) = m * 2 ^ k"
proof -
  let ?s = "m * 2 ^ k"
  have "2 ^ nat (bitlen \<bar>?s\<bar> - 53) dvd ?s"
  proof (cases "m = 0")
    case True
    then show ?thesis by simp
  next
    case False
    then have pos: "\<bar>m\<bar> > 0" by simp
    have a: "\<bar>?s\<bar> = \<bar>m\<bar> * 2 ^ k" by (simp add: abs_mult)
    have b: "bitlen \<bar>?s\<bar> = bitlen \<bar>m\<bar> + int k"
      unfolding a using pos by (rule bitlen_pow2)
    show ?thesis
    proof (cases "\<bar>m\<bar> = 2 ^ 53")
      case True
      then have "bitlen \<bar>m\<bar> = 54"
        using bitlen_twopow_add_eq [of 0 53] by simp
      with b have "nat (bitlen \<bar>?s\<bar> - 53) = Suc k" by simp
      moreover have "(2::int) ^ Suc k dvd \<bar>m\<bar> * 2 ^ k"
        unfolding True by simp
      ultimately show ?thesis using a by (metis dvd_abs_iff)
    next
      case False
      with assms have "\<bar>m\<bar> < 2 ^ 53" by simp
      then have "bitlen \<bar>m\<bar> \<le> 53" by (simp add: bitlen_le_iff_power)
      with b have "nat (bitlen \<bar>?s\<bar> - 53) \<le> k" by simp
      then have "(2::int) ^ nat (bitlen \<bar>?s\<bar> - 53) dvd 2 ^ k"
        by (rule le_imp_power_dvd)
      then show ?thesis by (rule dvd_mult)
    qed
  qed
  then show ?thesis by (rule round_double_exact)
qed

lemma add_one_whole:
  assumes "\<bar>n\<bar> < 2 ^ 53"
  shows "add_one (whole n) = whole (n + 1)"
proof -
  have "n * 2 ^ 1074 + 2 ^ 1074 = (n + 1) * (2::int) ^ 1074"
    by (simp only: distrib_right mult_1)
  moreover from assms have "\<bar>n + 1\<bar> \<le> 2 ^ 53" by simp
  then have "round_double ((n + 1) * 2 ^ 1074) = (n + 1) * 2 ^ 1074"
    by (rule round_double_scaled)
  ultimately show ?thesis by (simp only: whole_def add_one.simps)
qed

lemma add_one_whole_1: "add_one (whole 1) = whole 2"
  using add_one_whole [of 1] by simp

lemma add_one_absorbed: "add_one (whole 9007199254740992) = whole 9007199254740992"
  by code_simp

lemma whole_inject: "whole m = whole n \<longleftrightarrow> m = n"
  by (simp add: whole_def del: power_numeral)

section \<open>The two loops of \<open>apply_pending\<close>\<close>

lemmas scenario_defs = panel_v1_def store_v1_def panel_v2_def panel_v1_archived_def store_v2_def
  gene_A_def gene_B_def gene_C_def gene_A_mosaic_def gene_A2_def edit_A_mosaic_def
  edit_A_not_mosaic_def delete_A_def delete_B_def add_C_def add_A2_def hgnc_gene_C_def panel_big_def panel_big_new_def panel_big_archived_def

lemmas apply_defs = apply_pending_def pending_of_def insert_one_def update_panel_def
  find_one_and_replace_def apply_info_def set_field_def dict_get_def gene_obj_def Let_def
  add_one_whole_1 add_one_absorbed

lemma find_append:
  "List.find P (xs @ ys) = (case List.find P xs of None \<Rightarrow> List.find P ys | Some x \<Rightarrow> Some x)"
  by (induction xs) auto

lemma pending_loop_adds:
  "pending_loop ps ng upd = Inr (ng', upd') \<Longrightarrow>
     ng' = ng @ map gene_obj (filter (\<lambda>u. action u = ''add'') ps)"
proof (induction ps arbitrary: ng upd)
  case Nil
  then show ?case by simp
next
  case (Cons u ps)
  show ?case
  proof (cases "action u = ''add''")
    case True
    with Cons.prems have "pending_loop ps (ng @ [gene_obj u]) upd = Inr (ng', upd')" by simp
    from Cons.IH [OF this] True show ?thesis by simp
  next
    case False
    with Cons.prems obtain k where "pending_loop ps ng (upd(k \<mapsto> u)) = Inr (ng', upd')"
      by (auto split: sum.splits)
    from Cons.IH [OF this] False show ?thesis by simp
  qed
qed

lemma pending_loop_updates:
  "pending_loop ps ng upd = Inr (ng', upd') \<Longrightarrow>
     upd' k = (case last_update ps k of None \<Rightarrow> upd k | Some u \<Rightarrow> Some u)"
proof (induction ps arbitrary: ng upd)
  case Nil
  then show ?case by (simp add: last_update_def)
next
  case (Cons u ps)
  show ?case
  proof (cases "action u = ''add''")
    case True
    with Cons.prems have "pending_loop ps (ng @ [gene_obj u]) upd = Inr (ng', upd')" by simp
    from Cons.IH [OF this] True show ?thesis
      by (simp add: last_update_def find_append split: option.splits)
  next
    case False
    with Cons.prems obtain j where j: "dict_key (hgnc_id u) = Inr j"
      and "pending_loop ps ng (upd(j \<mapsto> u)) = Inr (ng', upd')"
      by (auto split: sum.splits)
    from Cons.IH [OF this(2)] False j show ?thesis
      by (auto simp add: last_update_def find_append split: option.splits)
  qed
qed

lemma pending_loop_returns:
  "(\<forall>u\<in>set ps. action u \<noteq> ''add'' \<longrightarrow> dict_key (hgnc_id u) \<noteq> Inl TypeError) \<Longrightarrow>
     \<exists>r. pending_loop ps ng upd = Inr r"
proof (induction ps arbitrary: ng upd)
  case Nil
  then show ?case by simp
next
  case (Cons u ps)
  then show ?case
    by (cases "hgnc_id u") (auto split: sum.splits)
qed

lemma genes_loop_result:
  "genes_loop upd gs vis ng = Inr (vis', ng') \<Longrightarrow>
     vis' = vis @ map (edited upd) gs \<and> ng' = ng @ concat (map (carried upd) gs) \<and>
     (\<forall>g\<in>set gs. gene_key g \<noteq> None)"
proof (induction gs arbitrary: vis ng)
  case Nil
  then show ?case by simp
next
  case (Cons g gs)
  from Cons.prems obtain gid k where g: "map_of g ''hgnc_id'' = Some gid" "dict_key gid = Inr k"
    by (auto split: option.splits sum.splits)
  then have key: "gene_key g = Some k" by (simp add: gene_key_def)
  show ?case
  proof (cases "upd k")
    case None
    with Cons.prems g have "genes_loop upd gs (vis @ [g]) (ng @ [g]) = Inr (vis', ng')" by simp
    from Cons.IH [OF this] None key show ?thesis by (simp add: edited_def carried_def)
  next
    case (Some u)
    show ?thesis
    proof (cases "action u = ''edit''")
      case True
      with Cons.prems g Some
      have "genes_loop upd gs (vis @ [apply_info (info u) g]) (ng @ [apply_info (info u) g])
              = Inr (vis', ng')"
        by (simp add: Let_def)
      from Cons.IH [OF this] Some True key show ?thesis by (simp add: edited_def carried_def)
    next
      case False
      with Cons.prems g Some have "genes_loop upd gs (vis @ [g]) ng = Inr (vis', ng')"
        by (simp split: if_splits)
      from Cons.IH [OF this] Some False key show ?thesis by (simp add: edited_def carried_def)
    qed
  qed
qed

lemma genes_loop_returns:
  "(\<forall>g\<in>set gs. gene_key g \<noteq> None) \<Longrightarrow> \<exists>r. genes_loop upd gs vis ng = Inr r"
proof (induction gs arbitrary: vis ng)
  case Nil
  then show ?case by simp
next
  case (Cons g gs)
  then show ?case
    by (auto simp add: gene_key_def Let_def split: option.splits sum.splits)
qed


lemma last_update_from_empty:
  assumes "pending_loop ps [] Map.empty = Inr (ng', upd')"
  shows "upd' = last_update ps"
proof
  fix k
  from pending_loop_updates [OF assms, of k] show "upd' k = last_update ps k"
    by (simp split: option.splits)
qed

lemma apply_pending_result:
  assumes "apply_pending coll p now nid now' = Inr (np, p', coll')"
  shows "\<exists>i. oid p = Some i \<and> coll nid = None \<and>
     np = p\<lparr>oid := Some nid, pending := Some [], date := now,
             genes := map gene_obj (filter (\<lambda>u. action u = ''add'') (pending_of p)) @
                      concat (map (carried (last_update (pending_of p))) (genes p)),
             version := add_one (version p)\<rparr> \<and>
     p' = p\<lparr>genes := map (edited (last_update (pending_of p))) (genes p),
             is_archived := Some True, date := now'\<rparr> \<and>
     coll' = (if (coll(nid \<mapsto> np)) i = None then coll(nid \<mapsto> np)
              else coll(nid \<mapsto> np, i \<mapsto> p')) \<and>
     (\<forall>g\<in>set (genes p). gene_key g \<noteq> None)"
proof -
  from assms obtain i where i: "oid p = Some i"
    by (auto simp add: apply_pending_def split: option.splits)
  from assms i obtain ng upd where pl: "pending_loop (pending_of p) [] Map.empty = Inr (ng, upd)"
    by (auto simp add: apply_pending_def Let_def split: sum.splits)
  from assms i pl obtain vis ng' where gl: "genes_loop upd (genes p) [] ng = Inr (vis, ng')"
    by (auto simp add: apply_pending_def Let_def split: sum.splits)
  have upd: "upd = last_update (pending_of p)" by (rule last_update_from_empty [OF pl])
  have ng: "ng = map gene_obj (filter (\<lambda>u. action u = ''add'') (pending_of p))"
    using pending_loop_adds [OF pl] by simp
  from genes_loop_result [OF gl]
  have vis: "vis = map (edited upd) (genes p)"
    and ng': "ng' = ng @ concat (map (carried upd) (genes p))"
    and keys: "\<forall>g\<in>set (genes p). gene_key g \<noteq> None"
    by simp_all
  from assms i pl gl show ?thesis
    unfolding upd [symmetric] ng [symmetric] ng' [symmetric] vis [symmetric]
    using keys
    by (auto simp add: apply_pending_def Let_def insert_one_def update_panel_def
          find_one_and_replace_def split: sum.splits if_splits option.splits prod.splits)
qed

lemma apply_pending_returns:
  assumes "oid p = Some i" and "coll nid = None"
    and "\<forall>u\<in>set (pending_of p). action u \<noteq> ''add'' \<longrightarrow> dict_key (hgnc_id u) \<noteq> Inl TypeError"
    and "\<forall>g\<in>set (genes p). gene_key g \<noteq> None"
  shows "\<exists>np p' coll'. apply_pending coll p now nid now' = Inr (np, p', coll')"
proof -
  from pending_loop_returns [OF assms(3)] obtain ng upd
    where pl: "pending_loop (pending_of p) [] Map.empty = Inr (ng, upd)" by fastforce
  from genes_loop_returns [OF assms(4)] obtain vis ng'
    where gl: "genes_loop upd (genes p) [] ng = Inr (vis, ng')" by fastforce
  from assms(1,2) pl gl show ?thesis
    by (simp add: apply_pending_def Let_def insert_one_def update_panel_def
          find_one_and_replace_def split: option.splits prod.splits)
qed


lemma carried_no_updates:
  "(\<forall>g\<in>set gs. gene_key g \<noteq> None) \<Longrightarrow> concat (map (carried (last_update [])) gs) = gs"
  by (induction gs) (auto simp add: carried_def last_update_def)

lemma edited_no_updates: "map (edited (last_update [])) gs = gs"
  by (induction gs) (auto simp add: edited_def last_update_def split: option.splits)


lemma map_of_set_field:
  "map_of (set_field i f g) k =
     (if k = f \<and> truthy (dict_get i f) then Some (dict_get i f) else map_of g k)"
  by (simp add: set_field_def update_conv')

lemma map_of_apply_info:
  "map_of (apply_info i g) k =
     (if k \<in> set optional_fields \<and> truthy (dict_get i k) then Some (dict_get i k)
      else map_of g k)"
  by (auto simp add: apply_info_def Let_def map_of_set_field optional_fields_def)

lemma dict_key_error: "dict_key v = Inl e \<Longrightarrow> e = TypeError"
  by (cases v) auto

lemma pending_loop_closed:
  "pending_loop ps ng upd =
     (if \<exists>u\<in>set ps. action u \<noteq> ''add'' \<and> dict_key (hgnc_id u) = Inl TypeError
      then Inl TypeError
      else Inr (ng @ map gene_obj (filter (\<lambda>u. action u = ''add'') ps),
                \<lambda>k. case last_update ps k of None \<Rightarrow> upd k | Some u \<Rightarrow> Some u))"
proof (induction ps arbitrary: ng upd)
  case Nil
  then show ?case by (simp add: last_update_def)
next
  case (Cons u ps)
  show ?case
  proof (cases "action u = ''add''")
    case True
    then show ?thesis
      by (auto simp add: Cons.IH last_update_def find_append fun_eq_iff split: option.splits)
  next
    case False
    show ?thesis
    proof (cases "dict_key (hgnc_id u)")
      case (Inl e)
      with dict_key_error have "dict_key (hgnc_id u) = Inl TypeError" by blast
      with False show ?thesis by auto
    next
      case (Inr j)
      with False show ?thesis
        by (auto simp add: Cons.IH last_update_def find_append fun_eq_iff split: option.splits)
    qed
  qed
qed

lemma last_update_shadowed:
  assumes "action w \<noteq> ''add''" and "dict_key (hgnc_id u) = dict_key (hgnc_id w)"
  shows "last_update (xs @ u # ys @ w # zs) = last_update (xs @ ys @ w # zs)"
proof
  fix k
  show "last_update (xs @ u # ys @ w # zs) k = last_update (xs @ ys @ w # zs) k"
    using assms by (auto simp add: last_update_def find_append split: option.splits)
qed

lemma pending_loop_shadowed:
  assumes "action u \<noteq> ''add''" and "action w \<noteq> ''add''"
    and "dict_key (hgnc_id u) = dict_key (hgnc_id w)"
  shows "pending_loop (xs @ u # ys @ w # zs) ng upd = pending_loop (xs @ ys @ w # zs) ng upd"
proof -
  have "(\<exists>x\<in>set (xs @ u # ys @ w # zs). action x \<noteq> ''add'' \<and> dict_key (hgnc_id x) = Inl TypeError)
      = (\<exists>x\<in>set (xs @ ys @ w # zs). action x \<noteq> ''add'' \<and> dict_key (hgnc_id x) = Inl TypeError)"
    using assms by auto
  moreover have "filter (\<lambda>x. action x = ''add'') (xs @ u # ys @ w # zs)
      = filter (\<lambda>x. action x = ''add'') (xs @ ys @ w # zs)"
    using assms(1) by simp
  ultimately show ?thesis
    unfolding pending_loop_closed last_update_shadowed [OF assms(2,3)] by simp
qed

lemma apply_pending_queue_cong:
  assumes "pending_loop (pending_of p) [] Map.empty = pending_loop qs [] Map.empty"
  shows "map_sum id fst (apply_pending coll p now nid now')
       = map_sum id fst (apply_pending coll (p\<lparr>pending := Some qs\<rparr>) now nid now')"
proof -
  have q: "pending_of (p\<lparr>pending := Some qs\<rparr>) = qs" by (simp add: pending_of_def)
  show ?thesis
    unfolding apply_pending_def q assms
    by (simp add: Let_def insert_one_def update_panel_def find_one_and_replace_def
          split: option.splits sum.splits prod.splits)
qed


lemma last_update_last:
  assumes "action w \<noteq> ''add''" and "dict_key (hgnc_id w) = Inr k"
    and "\<forall>z\<in>set zs. action z \<noteq> ''add'' \<longrightarrow> dict_key (hgnc_id z) \<noteq> Inr k"
  shows "last_update (xs @ w # zs) k = Some w"
proof -
  from assms(3)
  have "List.find (\<lambda>u. action u \<noteq> ''add'' \<and> dict_key (hgnc_id u) = Inr k) (rev zs) = None"
    by (auto simp add: find_None_iff)
  with assms(1,2) show ?thesis
    by (simp add: last_update_def find_append)
qed

lemma carried_last:
  assumes "last_update ps k = Some w"
  shows "map (carried (last_update ps)) gs =
         map (\<lambda>g. if gene_key g = Some k
                   then (if action w = ''edit'' then [apply_info (info w) g] else [])
                   else carried (last_update ps) g) gs"
proof (rule map_cong [OF refl])
  fix g
  show "carried (last_update ps) g =
          (if gene_key g = Some k
           then (if action w = ''edit'' then [apply_info (info w) g] else [])
           else carried (last_update ps) g)"
  proof (cases "gene_key g = Some k")
    case True
    with assms show ?thesis by (simp add: carried_def)
  next
    case False
    then show ?thesis by simp
  qed
qed


lemma apply_pending_effect_of_last:
  assumes "pending_of p = xs @ w # zs" and "action w \<noteq> ''add''"
    and k: "dict_key (hgnc_id w) = Inr k"
    and z: "\<forall>z\<in>set zs. action z \<noteq> ''add'' \<longrightarrow> dict_key (hgnc_id z) \<noteq> Inr k"
    and r: "apply_pending coll p now nid now' = Inr (np, p', coll')"
  shows "genes np =
           map gene_obj (filter (\<lambda>x. action x = ''add'') (xs @ w # zs)) @
           concat (map (\<lambda>g. if gene_key g = Some k
                             then (if action w = ''edit'' then [apply_info (info w) g] else [])
                             else carried (last_update (xs @ w # zs)) g)
                     (genes p))"
proof -
  have l: "last_update (xs @ w # zs) k = Some w"
    using assms(2) k z by (rule last_update_last)
  from apply_pending_result [OF r]
  have "genes np =
           map gene_obj (filter (\<lambda>u. action u = ''add'') (pending_of p)) @
           concat (map (carried (last_update (pending_of p))) (genes p))"
    by auto
  then show ?thesis
    unfolding assms(1) carried_last [OF l, of "genes p"] .
qed



section \<open>The loop of \<open>parse_genes\<close>\<close>

lemma filter_enumerate_Suc:
  "map snd (filter (\<lambda>(j, r). Q (Suc j) r) (enumerate n rs)) =
   map snd (filter (\<lambda>(j, r). Q j r) (enumerate (Suc n) rs))"
  by (induction rs arbitrary: n) auto

lemma unseen_Nil [simp]: "unseen key S [] = []"
  by (simp add: unseen_def)

lemma unseen_tail:
  "map snd (filter (\<lambda>(j, r). key r \<notin> S \<union> key ` set (take j (x # rs))) (enumerate (Suc 0) rs))
     = unseen key (insert (key x) S) rs"
proof -
  have "map snd (filter (\<lambda>(j, r). key r \<notin> S \<union> key ` set (take j (x # rs))) (enumerate (Suc 0) rs))
      = map snd (filter (\<lambda>(j, r). key r \<notin> S \<union> key ` set (take (Suc j) (x # rs))) (enumerate 0 rs))"
    by (rule filter_enumerate_Suc [symmetric])
  also have "\<dots> = unseen key (insert (key x) S) rs"
    by (simp add: unseen_def)
  finally show ?thesis .
qed

lemma unseen_Cons:
  "unseen key S (x # rs) =
     (if key x \<in> S then unseen key S rs else x # unseen key (insert (key x) S) rs)"
proof (cases "key x \<in> S")
  case True
  then have "unseen key S (x # rs) =
      map snd (filter (\<lambda>(j, r). key r \<notin> S \<union> key ` set (take j (x # rs))) (enumerate (Suc 0) rs))"
    by (simp add: unseen_def)
  also have "\<dots> = unseen key (insert (key x) S) rs" by (rule unseen_tail)
  also have "insert (key x) S = S" using True by auto
  finally show ?thesis using True by simp
next
  case False
  then have "unseen key S (x # rs) =
      x # map snd (filter (\<lambda>(j, r). key r \<notin> S \<union> key ` set (take j (x # rs))) (enumerate (Suc 0) rs))"
    by (simp add: unseen_def)
  with unseen_tail [of key S x rs] False show ?thesis by simp
qed

lemma unseen_subset: "set (unseen key S rs) \<subseteq> set rs"
  by (induction rs arbitrary: S) (auto simp add: unseen_Cons)

lemma unseen_keys: "key ` set (unseen key S rs) \<inter> S = {}"
  by (induction rs arbitrary: S) (auto simp add: unseen_Cons)

lemma distinct_unseen: "distinct (map key (unseen key S rs))"
proof (induction rs arbitrary: S)
  case Nil
  then show ?case by simp
next
  case (Cons x rs)
  from unseen_keys [of key "insert (key x) S" rs]
  have "key x \<notin> key ` set (unseen key (insert (key x) S) rs)" by auto
  with Cons show ?case by (simp add: unseen_Cons)
qed

lemma parse_gene_shape:
  assumes "parse_gene gene_info = Inr g"
  shows "map fst g = parsed_keys \<and>
         map_of g ''identifier'' = Some (identifier_of (AList.delete ''identifier'' g))"
proof -
  let ?h = "case first_key [''hgnc_id'', ''hgnc_idnumber'', ''hgncid''] gene_info of
              None \<Rightarrow> Inr PNone
            | Some s \<Rightarrow> (case py_int s of
                           None \<Rightarrow> Inl (SyntaxError InvalidHgncId)
                         | Some n \<Rightarrow> Inr (PInt n))"
  let ?s = "case first_key [''hgnc_symbol'', ''hgncsymbol'', ''symbol''] gene_info of
              None \<Rightarrow> PNone
            | Some s \<Rightarrow> PStr s"
  from assms obtain h where h: "?h = Inr h"
    by (cases ?h) (simp_all add: parse_gene_def)
  show ?thesis
  proof (cases "truthy h")
    case True
    with assms h show ?thesis
      by (auto simp add: parse_gene_def Let_def parsed_keys_def identifier_of_def dict_get_def)
  next
    case False
    with assms h have "truthy ?s"
      by (auto simp add: parse_gene_def Let_def split: if_splits)
    with assms h False show ?thesis
      by (auto simp add: parse_gene_def Let_def parsed_keys_def identifier_of_def dict_get_def)
  qed
qed

lemma parse_line_shape:
  assumes "parse_line i line header delimiter = Inr (header', delimiter', Some g)"
  shows "map fst g = parsed_keys \<and>
         map_of g ''identifier'' = Some (identifier_of (AList.delete ''identifier'' g))"
proof -
  from assms have "\<exists>gene_info. parse_gene gene_info = Inr g"
    unfolding parse_line_def Let_def
    by (simp split: if_splits sum.splits) blast+
  then obtain gene_info where "parse_gene gene_info = Inr g" by blast
  then show ?thesis by (rule parse_gene_shape)
qed

lemma parsed_lines_shape:
  "parsed_lines i ls header delimiter = Inr rs \<Longrightarrow>
     \<forall>r\<in>set rs. map fst r = parsed_keys \<and>
       map_of r ''identifier'' = Some (identifier_of (AList.delete ''identifier'' r))"
proof (induction ls arbitrary: i header delimiter rs)
  case Nil
  then show ?case by simp
next
  case (Cons l ls)
  from Cons.prems obtain h d g rs' where
    pl: "parse_line i l header delimiter = Inr (h, d, g)"
    and r: "parsed_lines (Suc i) ls h d = Inr rs'"
    and rs: "rs = (case g of None \<Rightarrow> [] | Some gene \<Rightarrow> [gene]) @ rs'"
    by (auto split: sum.splits)
  from Cons.IH [OF r] parse_line_shape pl rs show ?case
    by (cases g) auto
qed

lemma parse_genes_loop_result:
  "parse_genes_loop i ls gs header ids delimiter = Inr out \<Longrightarrow>
     \<exists>rs. parsed_lines i ls header delimiter = Inr rs \<and>
          out = gs @ map (AList.delete ''identifier'')
                          (unseen (\<lambda>r. dict_get r ''identifier'') ids rs)"
proof (induction ls arbitrary: i gs header ids delimiter)
  case Nil
  then show ?case by simp
next
  case (Cons l ls)
  from Cons.prems obtain h d g where pl: "parse_line i l header delimiter = Inr (h, d, g)"
    by (auto split: sum.splits)
  show ?case
  proof (cases g)
    case None
    with Cons.prems pl have "parse_genes_loop (Suc i) ls gs h ids d = Inr out" by simp
    from Cons.IH [OF this] pl None show ?thesis by auto
  next
    case (Some gene)
    with Cons.prems pl obtain idf where idf: "map_of gene ''identifier'' = Some idf"
      by (auto split: option.splits)
    then have dg: "dict_get gene ''identifier'' = idf" by (simp add: dict_get_def)
    show ?thesis
    proof (cases "idf \<in> ids")
      case True
      with Cons.prems pl Some idf
      have "parse_genes_loop (Suc i) ls gs h ids d = Inr out" by (simp add: Let_def)
      from Cons.IH [OF this] pl Some True dg show ?thesis
        by (auto simp add: unseen_Cons)
    next
      case False
      with Cons.prems pl Some idf
      have "parse_genes_loop (Suc i) ls (gs @ [AList.delete ''identifier'' gene]) h
              (insert idf ids) d = Inr out"
        by (simp add: Let_def)
      from Cons.IH [OF this] pl Some False dg show ?thesis
        by (auto simp add: unseen_Cons)
    qed
  qed
qed





section \<open>How a gene came into a panel\<close>













section \<open>\<open>apply_pending\<close> on the examples\<close>

lemma empty_queue_eval:
  "apply_pending (store_v1 [gene_A, gene_B] []) (panel_v1 [gene_A, gene_B] []) 5 2 6 =
     Inr (panel_v2 [gene_A, gene_B], panel_v1_archived [gene_A, gene_B] [],
          store_v2 [gene_A, gene_B] [gene_A, gene_B] [])"
  by (simp add: scenario_defs apply_defs)

lemma scenario_A_eval:
  "apply_pending (store_v1 [gene_A, gene_B] [edit_A_mosaic])
       (panel_v1 [gene_A, gene_B] [edit_A_mosaic]) 5 2 6 =
     Inr (panel_v2 [gene_A_mosaic, gene_B], panel_v1_archived [gene_A_mosaic, gene_B] [edit_A_mosaic],
          store_v2 [gene_A_mosaic, gene_B] [gene_A_mosaic, gene_B] [edit_A_mosaic])"
  by (simp add: scenario_defs apply_defs)

lemma scenario_B_eval:
  "apply_pending (store_v1 [gene_A, gene_B] [add_C, delete_B])
       (panel_v1 [gene_A, gene_B] [add_C, delete_B]) 5 2 6 =
     Inr (panel_v2 [gene_C, gene_A], panel_v1_archived [gene_A, gene_B] [add_C, delete_B],
          store_v2 [gene_C, gene_A] [gene_A, gene_B] [add_C, delete_B])"
  by (simp add: scenario_defs apply_defs)

lemma edit_false_eval:
  "apply_pending (store_v1 [gene_A_mosaic, gene_B] [edit_A_not_mosaic])
       (panel_v1 [gene_A_mosaic, gene_B] [edit_A_not_mosaic]) 5 2 6 =
     Inr (panel_v2 [gene_A_mosaic, gene_B],
          panel_v1_archived [gene_A_mosaic, gene_B] [edit_A_not_mosaic],
          store_v2 [gene_A_mosaic, gene_B] [gene_A_mosaic, gene_B] [edit_A_not_mosaic])"
  by (simp add: scenario_defs apply_defs)

lemma edit_and_add_eval:
  "apply_pending (store_v1 [gene_A, gene_B] [edit_A_mosaic, add_C])
       (panel_v1 [gene_A, gene_B] [edit_A_mosaic, add_C]) 5 2 6 =
     Inr (panel_v2 [gene_C, gene_A_mosaic, gene_B],
          panel_v1_archived [gene_A_mosaic, gene_B] [edit_A_mosaic, add_C],
          store_v2 [gene_C, gene_A_mosaic, gene_B] [gene_A_mosaic, gene_B] [edit_A_mosaic, add_C])"
  by (simp add: scenario_defs apply_defs)

lemma add_existing_eval:
  "apply_pending (store_v1 [gene_A, gene_B] [add_A2]) (panel_v1 [gene_A, gene_B] [add_A2]) 5 2 6 =
     Inr (panel_v2 [gene_A2, gene_A, gene_B], panel_v1_archived [gene_A, gene_B] [add_A2],
          store_v2 [gene_A2, gene_A, gene_B] [gene_A, gene_B] [add_A2])"
  by (simp add: scenario_defs apply_defs)

lemma edit_then_delete_eval:
  "apply_pending (store_v1 [gene_A, gene_B] [edit_A_mosaic, delete_A])
       (panel_v1 [gene_A, gene_B] [edit_A_mosaic, delete_A]) 5 2 6 =
     Inr (panel_v2 [gene_B], panel_v1_archived [gene_A, gene_B] [edit_A_mosaic, delete_A],
          store_v2 [gene_B] [gene_A, gene_B] [edit_A_mosaic, delete_A])"
  by (simp add: scenario_defs apply_defs)

lemma delete_then_edit_eval:
  "apply_pending (store_v1 [gene_A, gene_B] [delete_A, edit_A_mosaic])
       (panel_v1 [gene_A, gene_B] [delete_A, edit_A_mosaic]) 5 2 6 =
     Inr (panel_v2 [gene_A_mosaic, gene_B],
          panel_v1_archived [gene_A_mosaic, gene_B] [delete_A, edit_A_mosaic],
          store_v2 [gene_A_mosaic, gene_B] [gene_A_mosaic, gene_B] [delete_A, edit_A_mosaic])"
  by (simp add: scenario_defs apply_defs)

section \<open>The order of the new gene list\<close>

text \<open>
  C1, as the claim states it, fails: in scenario B (the genes A and B, pending an \<open>add\<close> of C
  and a \<open>delete\<close> of B) the new gene list is C, A and not A, C.
\<close>

theorem apply_pending_order_counterexample:
  "apply_pending (store_v1 [gene_A, gene_B] [add_C, delete_B])
       (panel_v1 [gene_A, gene_B] [add_C, delete_B]) 5 2 6 =
     Inr (panel_v2 [gene_C, gene_A], panel_v1_archived [gene_A, gene_B] [add_C, delete_B],
          store_v2 [gene_C, gene_A] [gene_A, gene_B] [add_C, delete_B]) \<and>
   genes (panel_v2 [gene_C, gene_A]) = [gene_C, gene_A] \<and>
   genes (panel_v2 [gene_C, gene_A]) \<noteq> [gene_A, gene_C]"
  using scenario_B_eval by (simp add: panel_v2_def gene_A_def gene_C_def)

text \<open>
  C1, amended: the gene list of the new version is the genes of the \<open>add\<close> changes in the
  order of the queue, followed by the genes of the base that are carried forward (unchanged or
  edited), in the order of the base.
\<close>

theorem apply_pending_order:
  assumes "apply_pending coll p now nid now' = Inr (np, p', coll')"
  shows "genes np =
           map gene_obj (filter (\<lambda>u. action u = ''add'') (pending_of p)) @
           concat (map (carried (last_update (pending_of p))) (genes p))"
  using apply_pending_result [OF assms] by auto

theorem apply_pending_order_witness:
  "apply_pending (store_v1 [gene_A, gene_B] [add_C, delete_B])
       (panel_v1 [gene_A, gene_B] [add_C, delete_B]) 5 2 6 =
     Inr (panel_v2 [gene_C, gene_A], panel_v1_archived [gene_A, gene_B] [add_C, delete_B],
          store_v2 [gene_C, gene_A] [gene_A, gene_B] [add_C, delete_B]) \<and>
   map gene_obj (filter (\<lambda>u. action u = ''add'') [add_C, delete_B]) = [gene_C] \<and>
   concat (map (carried (last_update [add_C, delete_B])) [gene_A, gene_B]) = [gene_A] \<and>
   genes (panel_v2 [gene_C, gene_A]) = [gene_C] @ [gene_A]"
proof -
  have "map gene_obj (filter (\<lambda>u. action u = ''add'') [add_C, delete_B]) = [gene_C]"
    by (simp add: scenario_defs apply_defs)
  moreover have "concat (map (carried (last_update [add_C, delete_B])) [gene_A, gene_B]) = [gene_A]"
    by (simp add: scenario_defs carried_def last_update_def gene_key_def)
  moreover have "pending_of (panel_v1 [gene_A, gene_B] [add_C, delete_B]) = [add_C, delete_B]"
    by (simp add: panel_v1_def pending_of_def)
  moreover have "genes (panel_v1 [gene_A, gene_B] [add_C, delete_B]) = [gene_A, gene_B]"
    by (simp add: panel_v1_def)
  ultimately show ?thesis
    using apply_pending_order [OF scenario_B_eval] scenario_B_eval by simp
qed

section \<open>The genes of the base panel\<close>

text \<open>
  C2: the claim is that the gene records of the base panel are unchanged after the call. In
  scenario A (the genes A and B, pending an \<open>edit\<close> of A that sets \<open>mosaicism\<close>) the gene A
  of the caller's panel, and of the archived document in the collection, has the field
  \<open>mosaicism\<close> after the call.
\<close>

theorem apply_pending_edits_base:
  "apply_pending (store_v1 [gene_A, gene_B] [edit_A_mosaic])
       (panel_v1 [gene_A, gene_B] [edit_A_mosaic]) 5 2 6 =
     Inr (panel_v2 [gene_A_mosaic, gene_B], panel_v1_archived [gene_A_mosaic, gene_B] [edit_A_mosaic],
          store_v2 [gene_A_mosaic, gene_B] [gene_A_mosaic, gene_B] [edit_A_mosaic]) \<and>
   genes (panel_v1 [gene_A, gene_B] [edit_A_mosaic]) = [gene_A, gene_B] \<and>
   genes (panel_v1_archived [gene_A_mosaic, gene_B] [edit_A_mosaic]) = [gene_A_mosaic, gene_B] \<and>
   store_v2 [gene_A_mosaic, gene_B] [gene_A_mosaic, gene_B] [edit_A_mosaic] 1 =
     Some (panel_v1_archived [gene_A_mosaic, gene_B] [edit_A_mosaic]) \<and>
   gene_A_mosaic \<noteq> gene_A"
  using scenario_A_eval
  by (simp add: panel_v1_def panel_v1_archived_def store_v2_def gene_A_def gene_A_mosaic_def)

section \<open>Last write wins\<close>

text \<open>
  C3: where the queue holds two changes other than \<open>add\<close> for the same \<open>hgnc_id\<close>, the
  earlier one has no influence: the call with the queue and the call with the queue without
  the earlier change return the same new panel (or raise the same exception). And the last
  such change is the one that takes effect: where no later change of the queue is for that
  \<open>hgnc_id\<close>, every gene of the base with that \<open>hgnc_id\<close> is in the new list as the last
  change edits it (the fields of its \<open>info\<close> with a true value set, every other key as it
  was) if the last change is an \<open>edit\<close>, and is not in the new list otherwise; the genes of
  the other \<open>hgnc_id\<close>s are carried as their own last changes say.
\<close>

theorem apply_pending_last_write_wins:
  assumes "pending p = Some (xs @ u # ys @ w # zs)"
    and "action u \<noteq> ''add''" and "action w \<noteq> ''add''"
    and "dict_key (hgnc_id u) = dict_key (hgnc_id w)"
  shows "map_sum id fst (apply_pending coll p now nid now')
           = map_sum id fst
               (apply_pending coll (p\<lparr>pending := Some (xs @ ys @ w # zs)\<rparr>) now nid now') \<and>
         (\<forall>k np p' coll'. dict_key (hgnc_id w) = Inr k \<longrightarrow>
            (\<forall>z\<in>set zs. action z \<noteq> ''add'' \<longrightarrow> dict_key (hgnc_id z) \<noteq> Inr k) \<longrightarrow>
            apply_pending coll p now nid now' = Inr (np, p', coll') \<longrightarrow>
            genes np =
              map gene_obj (filter (\<lambda>x. action x = ''add'') (xs @ u # ys @ w # zs)) @
              concat (map (\<lambda>g. if gene_key g = Some k
                                then (if action w = ''edit'' then [apply_info (info w) g] else [])
                                else carried (last_update (xs @ u # ys @ w # zs)) g)
                        (genes p)) \<and>
            (\<forall>g f. map_of (apply_info (info w) g) f =
               (if f \<in> set optional_fields \<and> truthy (dict_get (info w) f)
                then Some (dict_get (info w) f)
                else map_of g f)))"
proof (intro conjI allI impI)
  have ps: "pending_of p = xs @ u # ys @ w # zs" using assms(1) by (simp add: pending_of_def)
  with pending_loop_shadowed [OF assms(2,3,4)]
  have "pending_loop (pending_of p) [] Map.empty = pending_loop (xs @ ys @ w # zs) [] Map.empty"
    by simp
  then show "map_sum id fst (apply_pending coll p now nid now')
           = map_sum id fst
               (apply_pending coll (p\<lparr>pending := Some (xs @ ys @ w # zs)\<rparr>) now nid now')"
    by (rule apply_pending_queue_cong)
next
  fix k np p' coll'
  assume k: "dict_key (hgnc_id w) = Inr k"
    and z: "\<forall>z\<in>set zs. action z \<noteq> ''add'' \<longrightarrow> dict_key (hgnc_id z) \<noteq> Inr k"
    and r: "apply_pending coll p now nid now' = Inr (np, p', coll')"
  have ps: "pending_of p = (xs @ u # ys) @ w # zs" using assms(1) by (simp add: pending_of_def)
  from apply_pending_effect_of_last [OF ps assms(3) k z r]
  show "genes np =
          map gene_obj (filter (\<lambda>x. action x = ''add'') (xs @ u # ys @ w # zs)) @
          concat (map (\<lambda>g. if gene_key g = Some k
                            then (if action w = ''edit'' then [apply_info (info w) g] else [])
                            else carried (last_update (xs @ u # ys @ w # zs)) g)
                    (genes p))"
    by (simp only: append_assoc append_Cons)
next
  fix k np p' coll' g f
  show "map_of (apply_info (info w) g) f =
          (if f \<in> set optional_fields \<and> truthy (dict_get (info w) f)
           then Some (dict_get (info w) f)
           else map_of g f)"
    by (rule map_of_apply_info)
qed

theorem apply_pending_last_write_wins_witness:
  "map_sum id fst (apply_pending (store_v1 [gene_A, gene_B] [delete_A, edit_A_mosaic])
       (panel_v1 [gene_A, gene_B] [delete_A, edit_A_mosaic]) 5 2 6) =
   map_sum id fst (apply_pending (store_v1 [gene_A, gene_B] [delete_A, edit_A_mosaic])
       ((panel_v1 [gene_A, gene_B] [delete_A, edit_A_mosaic])\<lparr>pending := Some [edit_A_mosaic]\<rparr>)
       5 2 6) \<and>
   apply_pending (store_v1 [gene_A, gene_B] [delete_A, edit_A_mosaic])
       (panel_v1 [gene_A, gene_B] [delete_A, edit_A_mosaic]) 5 2 6 =
     Inr (panel_v2 [gene_A_mosaic, gene_B],
          panel_v1_archived [gene_A_mosaic, gene_B] [delete_A, edit_A_mosaic],
          store_v2 [gene_A_mosaic, gene_B] [gene_A_mosaic, gene_B] [delete_A, edit_A_mosaic]) \<and>
   genes (panel_v2 [gene_A_mosaic, gene_B]) = [] @ [apply_info (info edit_A_mosaic) gene_A] @ [gene_B] \<and>
   apply_info (info edit_A_mosaic) gene_A = gene_A_mosaic \<and>
   map_of gene_A ''mosaicism'' = None \<and>
   map_of (apply_info (info edit_A_mosaic) gene_A) ''mosaicism'' = Some (PBool True) \<and>
   apply_pending (store_v1 [gene_A, gene_B] [edit_A_mosaic, delete_A])
       (panel_v1 [gene_A, gene_B] [edit_A_mosaic, delete_A]) 5 2 6 =
     Inr (panel_v2 [gene_B], panel_v1_archived [gene_A, gene_B] [edit_A_mosaic, delete_A],
          store_v2 [gene_B] [gene_A, gene_B] [edit_A_mosaic, delete_A]) \<and>
   genes (panel_v2 [gene_B]) = [] @ [] @ [gene_B]"
proof -
  let ?de = "panel_v1 [gene_A, gene_B] [delete_A, edit_A_mosaic]"
  let ?ed = "panel_v1 [gene_A, gene_B] [edit_A_mosaic, delete_A]"
  have d: "action delete_A \<noteq> ''add''" "dict_key (hgnc_id delete_A) = Inr (PInt 1)"
    "action delete_A \<noteq> ''edit''"
    by (simp_all add: delete_A_def)
  have e: "action edit_A_mosaic \<noteq> ''add''" "dict_key (hgnc_id edit_A_mosaic) = Inr (PInt 1)"
    "action edit_A_mosaic = ''edit''"
    by (simp_all add: edit_A_mosaic_def)
  have keq: "dict_key (hgnc_id delete_A) = dict_key (hgnc_id edit_A_mosaic)"
    using d(2) e(2) by simp
  have last: "\<forall>z\<in>set []. action z \<noteq> ''add'' \<longrightarrow> dict_key (hgnc_id z) \<noteq> Inr (PInt 1)"
    by simp
  have k: "gene_key gene_A = Some (PInt 1)" "gene_key gene_B \<noteq> Some (PInt 1)"
    by (simp_all add: gene_key_def gene_A_def gene_B_def)
  have m: "apply_info (info edit_A_mosaic) gene_A = gene_A_mosaic"
    by (simp add: scenario_defs apply_defs)
  have cde: "carried (last_update [delete_A, edit_A_mosaic]) gene_B = [gene_B]"
    and ced: "carried (last_update [edit_A_mosaic, delete_A]) gene_B = [gene_B]"
    by (simp_all add: carried_def last_update_def gene_key_def gene_B_def delete_A_def
          edit_A_mosaic_def)
  have ade: "map gene_obj (filter (\<lambda>x. action x = ''add'') ([] @ delete_A # [] @ edit_A_mosaic # [])) = []"
    and aed: "map gene_obj (filter (\<lambda>x. action x = ''add'') ([] @ edit_A_mosaic # [] @ delete_A # [])) = []"
    using d(1) e(1) by simp_all
  have gde: "genes ?de = [gene_A, gene_B]" and ged: "genes ?ed = [gene_A, gene_B]"
    by (simp_all add: panel_v1_def)
  have h1: "pending ?de = Some ([] @ delete_A # [] @ edit_A_mosaic # [])"
    by (simp add: panel_v1_def)
  have h2: "pending ?ed = Some ([] @ edit_A_mosaic # [] @ delete_A # [])"
    by (simp add: panel_v1_def)
  note t1 = apply_pending_last_write_wins [OF h1 d(1) e(1) keq,
      where coll = "store_v1 [gene_A, gene_B] [delete_A, edit_A_mosaic]" and now = 5
        and nid = 2 and now' = 6]
  note t2 = apply_pending_last_write_wins [OF h2 e(1) d(1) keq [symmetric],
      where coll = "store_v1 [gene_A, gene_B] [edit_A_mosaic, delete_A]" and now = 5
        and nid = 2 and now' = 6]
  have a: "map_sum id fst (apply_pending (store_v1 [gene_A, gene_B] [delete_A, edit_A_mosaic]) ?de 5 2 6) =
     map_sum id fst (apply_pending (store_v1 [gene_A, gene_B] [delete_A, edit_A_mosaic])
       (?de\<lparr>pending := Some [edit_A_mosaic]\<rparr>) 5 2 6)"
    using t1 [THEN conjunct1] by (simp only: append_Nil)
  from t1 [THEN conjunct2, rule_format, OF e(2) last [rule_format] delete_then_edit_eval, THEN conjunct1]
  have b: "genes (panel_v2 [gene_A_mosaic, gene_B]) =
             [] @ [apply_info (info edit_A_mosaic) gene_A] @ [gene_B]"
    unfolding ade gde by (simp add: k e(3) cde)
  from t1 [THEN conjunct2, rule_format, OF e(2) last [rule_format] delete_then_edit_eval, THEN conjunct2,
      rule_format, of gene_A "''mosaicism''"]
  have f: "map_of (apply_info (info edit_A_mosaic) gene_A) ''mosaicism'' = Some (PBool True)"
    by (simp add: optional_fields_def edit_A_mosaic_def dict_get_def)
  from t2 [THEN conjunct2, rule_format, OF d(2) last [rule_format] edit_then_delete_eval, THEN conjunct1]
  have c: "genes (panel_v2 [gene_B]) = [] @ [] @ [gene_B]"
    unfolding aed ged by (simp add: k d(3) ced)
  have n: "map_of gene_A ''mosaicism'' = None" by (simp add: gene_A_def)
  from a b c m f n delete_then_edit_eval edit_then_delete_eval show ?thesis
    by (intro conjI)
qed


section \<open>An empty queue\<close>

text \<open>
  C6: for a panel with an empty pending queue (stored under its \<open>_id\<close>, every gene with an
  \<open>hgnc_id\<close> that can be looked up, the generated \<open>_id\<close> not in use), \<open>apply_pending\<close>
  returns a new version whose genes are the genes of the base, one for one in the same order,
  and whose queue is empty; the base is marked archived, in the caller's panel and in the
  collection.
\<close>

theorem apply_pending_empty_queue:
  assumes "pending_of p = []" and "oid p = Some i" and "coll nid = None"
    and "\<forall>g\<in>set (genes p). gene_key g \<noteq> None"
  shows "\<exists>np p' coll'. apply_pending coll p now nid now' = Inr (np, p', coll') \<and>
           genes np = genes p \<and> pending np = Some [] \<and> genes p' = genes p \<and>
           is_archived p' = Some True \<and> (coll i \<noteq> None \<longrightarrow> coll' i = Some p')"
proof -
  have "\<forall>u\<in>set (pending_of p). action u \<noteq> ''add'' \<longrightarrow> dict_key (hgnc_id u) \<noteq> Inl TypeError"
    using assms(1) by simp
  from apply_pending_returns [where coll = coll and nid = nid, OF assms(2,3) this assms(4)]
  obtain np p' coll'
    where r: "apply_pending coll p now nid now' = Inr (np, p', coll')" by blast
  from apply_pending_result [OF r] assms carried_no_updates [OF assms(4)] edited_no_updates
  have "genes np = genes p \<and> pending np = Some [] \<and> genes p' = genes p \<and>
          is_archived p' = Some True \<and> (coll i \<noteq> None \<longrightarrow> coll' i = Some p')"
    by auto
  with r show ?thesis by blast
qed

theorem apply_pending_empty_queue_witness:
  "apply_pending (store_v1 [gene_A, gene_B] []) (panel_v1 [gene_A, gene_B] []) 5 2 6 =
     Inr (panel_v2 [gene_A, gene_B], panel_v1_archived [gene_A, gene_B] [],
          store_v2 [gene_A, gene_B] [gene_A, gene_B] []) \<and>
   genes (panel_v2 [gene_A, gene_B]) = genes (panel_v1 [gene_A, gene_B] []) \<and>
   pending (panel_v2 [gene_A, gene_B]) = Some [] \<and>
   is_archived (panel_v1_archived [gene_A, gene_B] []) = Some True \<and>
   store_v1 [gene_A, gene_B] [] 1 \<noteq> None \<and>
   store_v2 [gene_A, gene_B] [gene_A, gene_B] [] 1 = Some (panel_v1_archived [gene_A, gene_B] [])"
proof -
  have h1: "pending_of (panel_v1 [gene_A, gene_B] []) = []"
    by (simp add: panel_v1_def pending_of_def)
  have h2: "oid (panel_v1 [gene_A, gene_B] []) = Some 1" by (simp add: panel_v1_def)
  have h3: "store_v1 [gene_A, gene_B] [] 2 = None" by (simp add: store_v1_def)
  have h4: "\<forall>g\<in>set (genes (panel_v1 [gene_A, gene_B] [])). gene_key g \<noteq> None"
    by (simp add: panel_v1_def gene_A_def gene_B_def gene_key_def)
  from apply_pending_empty_queue [where coll = "store_v1 [gene_A, gene_B] []" and nid = 2
      and now = 5 and now' = 6, OF h1 h2 h3 h4] empty_queue_eval
  show ?thesis by (auto simp add: store_v1_def)
qed

section \<open>The version number\<close>

lemma big_version_eval:
  "apply_pending [1 \<mapsto> panel_big] panel_big 5 2 6 =
     Inr (panel_big_new, panel_big_archived, [2 \<mapsto> panel_big_new, 1 \<mapsto> panel_big_archived])"
  by (simp add: scenario_defs apply_defs)

text \<open>
  C7, as the claim states it, fails: the version is a float, and for the panel with the
  version 9007199254740992.0 the version of the panel returned is 9007199254740992.0 again,
  not 9007199254740993.
\<close>

theorem apply_pending_version_counterexample:
  "apply_pending [1 \<mapsto> panel_big] panel_big 5 2 6 =
     Inr (panel_big_new, panel_big_archived, [2 \<mapsto> panel_big_new, 1 \<mapsto> panel_big_archived]) \<and>
   version panel_big = whole 9007199254740992 \<and>
   version panel_big_new = whole 9007199254740992 \<and>
   version panel_big_new \<noteq> whole (9007199254740992 + 1)"
  using big_version_eval
  by (simp add: panel_big_def panel_big_new_def whole_inject)

text \<open>
  C7, amended: the version of the panel returned by \<open>apply_pending\<close> is the float sum of the
  version of the base panel and 1; where the version of the base is a whole number below
  \<open>2 ^ 53\<close> in magnitude, it is that number plus 1 exactly.
\<close>

theorem apply_pending_version:
  assumes "apply_pending coll p now nid now' = Inr (np, p', coll')"
  shows "version np = add_one (version p) \<and>
         (\<forall>n. \<bar>n\<bar> < 2 ^ 53 \<longrightarrow> version p = whole n \<longrightarrow> version np = whole (n + 1))"
  using apply_pending_result [OF assms] by (auto simp add: add_one_whole)

theorem apply_pending_version_witness:
  "apply_pending (store_v1 [gene_A, gene_B] []) (panel_v1 [gene_A, gene_B] []) 5 2 6 =
     Inr (panel_v2 [gene_A, gene_B], panel_v1_archived [gene_A, gene_B] [],
          store_v2 [gene_A, gene_B] [gene_A, gene_B] []) \<and>
   \<bar>1\<bar> < (2::int) ^ 53 \<and>
   version (panel_v1 [gene_A, gene_B] []) = whole 1 \<and>
   version (panel_v2 [gene_A, gene_B]) = whole (1 + 1)"
proof -
  have v: "version (panel_v1 [gene_A, gene_B] []) = whole 1" by (simp add: panel_v1_def)
  have b: "\<bar>1\<bar> < (2::int) ^ 53" by simp
  from apply_pending_version [OF empty_queue_eval] v b
  have "version (panel_v2 [gene_A, gene_B]) = whole (1 + 1)" by blast
  with empty_queue_eval v b show ?thesis by blast
qed

section \<open>The optional fields\<close>

text \<open>
  C4, as the claim states it, fails: a field that is in \<open>info\<close> with a false value is not
  applied. The gene A has \<open>mosaicism\<close> \<open>True\<close>, the pending \<open>edit\<close> of A has
  \<open>mosaicism\<close> \<open>False\<close> in its \<open>info\<close>, and the gene A of the new version still has
  \<open>mosaicism\<close> \<open>True\<close>.
\<close>

theorem apply_pending_fields_counterexample:
  "apply_pending (store_v1 [gene_A_mosaic, gene_B] [edit_A_not_mosaic])
       (panel_v1 [gene_A_mosaic, gene_B] [edit_A_not_mosaic]) 5 2 6 =
     Inr (panel_v2 [gene_A_mosaic, gene_B],
          panel_v1_archived [gene_A_mosaic, gene_B] [edit_A_not_mosaic],
          store_v2 [gene_A_mosaic, gene_B] [gene_A_mosaic, gene_B] [edit_A_not_mosaic]) \<and>
   map_of (info edit_A_not_mosaic) ''mosaicism'' = Some (PBool False) \<and>
   map_of (genes (panel_v2 [gene_A_mosaic, gene_B]) ! 0) ''mosaicism'' = Some (PBool True) \<and>
   map_of (genes (panel_v2 [gene_A_mosaic, gene_B]) ! 0) ''mosaicism'' \<noteq> Some (PBool False)"
  using edit_false_eval by (simp add: panel_v2_def edit_A_not_mosaic_def gene_A_mosaic_def)

text \<open>
  C4, amended: of the five optional fields, exactly those whose value in \<open>info\<close> is true in
  Python's sense (not \<open>None\<close>, \<open>False\<close>, 0 or empty) take effect, with that value. A field
  that is missing from \<open>info\<close>, or is there with a false or empty value, keeps the value of
  the existing gene (for the \<open>edit\<close> that is the last change of its gene) or is left out
  (for an \<open>add\<close>); every other key of the gene is as it was.
\<close>

theorem apply_pending_fields:
  assumes "apply_pending coll p now nid now' = Inr (np, p', coll')"
  shows "(\<forall>u\<in>set (pending_of p). action u = ''add'' \<longrightarrow>
            gene_obj u \<in> set (genes np) \<and>
            (\<forall>f. map_of (gene_obj u) f =
               (if f \<in> set optional_fields \<and> truthy (dict_get (info u) f)
                then Some (dict_get (info u) f)
                else map_of [(''hgnc_id'', hgnc_id u), (''symbol'', symbol u)] f))) \<and>
         (\<forall>g\<in>set (genes p). \<forall>k u. gene_key g = Some k \<longrightarrow>
            last_update (pending_of p) k = Some u \<longrightarrow> action u = ''edit'' \<longrightarrow>
            apply_info (info u) g \<in> set (genes np) \<and>
            (\<forall>f. map_of (apply_info (info u) g) f =
               (if f \<in> set optional_fields \<and> truthy (dict_get (info u) f)
                then Some (dict_get (info u) f)
                else map_of g f)))"
proof -
  from apply_pending_result [OF assms]
  have g: "genes np =
           map gene_obj (filter (\<lambda>u. action u = ''add'') (pending_of p)) @
           concat (map (carried (last_update (pending_of p))) (genes p))"
    by auto
  have add: "gene_obj u \<in> set (genes np)" if "u \<in> set (pending_of p)" "action u = ''add''" for u
    using that g by simp
  have edit: "apply_info (info u) x \<in> set (genes np)"
    if "x \<in> set (genes p)" "gene_key x = Some k" "last_update (pending_of p) k = Some u"
      "action u = ''edit''" for x k u
  proof -
    from that(2,3,4) have "carried (last_update (pending_of p)) x = [apply_info (info u) x]"
      by (simp add: carried_def)
    with that(1) show ?thesis unfolding g by force
  qed
  from add edit show ?thesis
    by (simp add: map_of_apply_info gene_obj_def)
qed

theorem apply_pending_fields_witness:
  "apply_pending (store_v1 [gene_A, gene_B] [edit_A_mosaic, add_C])
       (panel_v1 [gene_A, gene_B] [edit_A_mosaic, add_C]) 5 2 6 =
     Inr (panel_v2 [gene_C, gene_A_mosaic, gene_B],
          panel_v1_archived [gene_A_mosaic, gene_B] [edit_A_mosaic, add_C],
          store_v2 [gene_C, gene_A_mosaic, gene_B] [gene_A_mosaic, gene_B] [edit_A_mosaic, add_C]) \<and>
   gene_obj add_C = gene_C \<and> gene_C \<in> set (genes (panel_v2 [gene_C, gene_A_mosaic, gene_B])) \<and>
   map_of (gene_obj add_C) ''mosaicism'' = None \<and>
   gene_key gene_A = Some (PInt 1) \<and> last_update [edit_A_mosaic, add_C] (PInt 1) = Some edit_A_mosaic \<and>
   apply_info (info edit_A_mosaic) gene_A = gene_A_mosaic \<and>
   gene_A_mosaic \<in> set (genes (panel_v2 [gene_C, gene_A_mosaic, gene_B])) \<and>
   map_of (apply_info (info edit_A_mosaic) gene_A) ''mosaicism'' = Some (PBool True) \<and>
   map_of (apply_info (info edit_A_mosaic) gene_A) ''symbol'' = Some (PStr ''A'')"
proof -
  have p: "pending_of (panel_v1 [gene_A, gene_B] [edit_A_mosaic, add_C]) = [edit_A_mosaic, add_C]"
    and gs: "genes (panel_v1 [gene_A, gene_B] [edit_A_mosaic, add_C]) = [gene_A, gene_B]"
    by (simp_all add: panel_v1_def pending_of_def)
  have a: "action add_C = ''add''" by (simp add: add_C_def)
  have k: "gene_key gene_A = Some (PInt 1)" by (simp add: gene_key_def gene_A_def)
  have l: "last_update [edit_A_mosaic, add_C] (PInt 1) = Some edit_A_mosaic"
    by (simp add: last_update_def edit_A_mosaic_def add_C_def)
  have e: "action edit_A_mosaic = ''edit''" by (simp add: edit_A_mosaic_def)
  have c: "gene_obj add_C = gene_C" by (simp add: scenario_defs apply_defs)
  have m: "apply_info (info edit_A_mosaic) gene_A = gene_A_mosaic"
    by (simp add: scenario_defs apply_defs)
  from apply_pending_fields [OF edit_and_add_eval] p gs a k l e
  have "gene_obj add_C \<in> set (genes (panel_v2 [gene_C, gene_A_mosaic, gene_B]))"
    and "apply_info (info edit_A_mosaic) gene_A \<in> set (genes (panel_v2 [gene_C, gene_A_mosaic, gene_B]))"
    by simp_all
  with edit_and_add_eval c m k l show ?thesis
    by (simp add: gene_C_def gene_A_mosaic_def)
qed

section \<open>An \<open>add\<close> of a gene that is in the base\<close>

text \<open>
  C5: every \<open>add\<close> of the queue puts its gene object into the new gene list, whatever the
  genes of the base are: the gene objects of all the \<open>add\<close> changes are in the new list, in
  the order of the queue. Where a gene of the base with the same \<open>hgnc_id\<close> is carried
  forward, the new list holds that \<open>hgnc_id\<close> twice.
\<close>

theorem apply_pending_add_duplicates:
  assumes "apply_pending coll p now nid now' = Inr (np, p', coll')"
  shows "(\<exists>rest. genes np =
            map gene_obj (filter (\<lambda>u. action u = ''add'') (pending_of p)) @ rest) \<and>
         (\<forall>u\<in>set (pending_of p). action u = ''add'' \<longrightarrow>
            gene_obj u \<in> set (genes np) \<and> map_of (gene_obj u) ''hgnc_id'' = Some (hgnc_id u) \<and>
            (\<forall>g\<in>set (genes p). map_of g ''hgnc_id'' = Some (hgnc_id u) \<longrightarrow>
               carried (last_update (pending_of p)) g \<noteq> [] \<longrightarrow>
               \<not> distinct (map (\<lambda>x. map_of x ''hgnc_id'') (genes np))))"
proof -
  let ?adds = "map gene_obj (filter (\<lambda>u. action u = ''add'') (pending_of p))"
  let ?rest = "concat (map (carried (last_update (pending_of p))) (genes p))"
  from apply_pending_result [OF assms] have g: "genes np = ?adds @ ?rest" by auto
  have hid: "map_of (gene_obj u) ''hgnc_id'' = Some (hgnc_id u)" for u
    by (simp add: gene_obj_def map_of_apply_info optional_fields_def)
  have dup: "\<not> distinct (map (\<lambda>x. map_of x ''hgnc_id'') (genes np))"
    if u: "u \<in> set (pending_of p)" "action u = ''add''"
      and x: "x \<in> set (genes p)" "map_of x ''hgnc_id'' = Some (hgnc_id u)"
        "carried (last_update (pending_of p)) x \<noteq> []" for u x
  proof -
    from x(3) obtain y where y: "y \<in> set (carried (last_update (pending_of p)) x)"
      by (cases "carried (last_update (pending_of p)) x") auto
    then have "map_of y ''hgnc_id'' = map_of x ''hgnc_id''"
      by (auto simp add: carried_def map_of_apply_info optional_fields_def
            split: option.splits if_splits)
    with x(2) have 1: "Some (hgnc_id u) \<in> set (map (\<lambda>x. map_of x ''hgnc_id'') ?rest)"
      using y x(1) by force
    from u hid have 2: "Some (hgnc_id u) \<in> set (map (\<lambda>x. map_of x ''hgnc_id'') ?adds)"
      by force
    from 1 2 show ?thesis unfolding g by auto
  qed
  from g hid dup show ?thesis by auto
qed

theorem apply_pending_add_duplicates_witness:
  "apply_pending (store_v1 [gene_A, gene_B] [add_A2]) (panel_v1 [gene_A, gene_B] [add_A2]) 5 2 6 =
     Inr (panel_v2 [gene_A2, gene_A, gene_B], panel_v1_archived [gene_A, gene_B] [add_A2],
          store_v2 [gene_A2, gene_A, gene_B] [gene_A, gene_B] [add_A2]) \<and>
   gene_obj add_A2 = gene_A2 \<and>
   map_of gene_A ''hgnc_id'' = Some (hgnc_id add_A2) \<and>
   carried (last_update [add_A2]) gene_A = [gene_A] \<and>
   \<not> distinct (map (\<lambda>x. map_of x ''hgnc_id'') (genes (panel_v2 [gene_A2, gene_A, gene_B])))"
proof -
  have p: "pending_of (panel_v1 [gene_A, gene_B] [add_A2]) = [add_A2]"
    and gs: "genes (panel_v1 [gene_A, gene_B] [add_A2]) = [gene_A, gene_B]"
    by (simp_all add: panel_v1_def pending_of_def)
  have a: "action add_A2 = ''add''" by (simp add: add_A2_def)
  have h: "map_of gene_A ''hgnc_id'' = Some (hgnc_id add_A2)"
    by (simp add: gene_A_def add_A2_def)
  have c: "carried (last_update [add_A2]) gene_A = [gene_A]"
    by (simp add: carried_def last_update_def gene_key_def gene_A_def add_A2_def)
  have o: "gene_obj add_A2 = gene_A2" by (simp add: scenario_defs apply_defs)
  from apply_pending_add_duplicates [OF add_existing_eval] p gs a h c
  have "\<not> distinct (map (\<lambda>x. map_of x ''hgnc_id'') (genes (panel_v2 [gene_A2, gene_A, gene_B])))"
    by simp
  with add_existing_eval h c o show ?thesis by simp
qed

section \<open>\<open>add_pending\<close>\<close>

text \<open>
  C8: a call of \<open>add_pending\<close> with an action other than \<open>add\<close>, \<open>delete\<close> and \<open>edit\<close>
  raises \<open>ValueError\<close> and leaves the collection as it is. A call with one of the three
  actions, for a gene with the keys \<open>hgnc_id\<close> and \<open>hgnc_symbol\<close> and a panel that is
  stored, appends one pending change with that \<open>hgnc_id\<close>, action, \<open>info\<close> and symbol at the
  end of the queue of the stored panel and returns the panel; nothing else of the panel, and
  so not its version, and no other document changes.
\<close>

theorem add_pending_appends:
  "(act \<notin> {''add'', ''delete'', ''edit''} \<longrightarrow>
      add_pending coll p gene act overrides = (coll, Inl ValueError)) \<and>
   (act \<in> {''add'', ''delete'', ''edit''} \<longrightarrow> map_of gene ''hgnc_id'' = Some gid \<longrightarrow>
      map_of gene ''hgnc_symbol'' = Some label \<longrightarrow> oid p = Some i \<longrightarrow> coll i = Some d \<longrightarrow>
      (\<exists>d'. add_pending coll p gene act overrides = (coll(i \<mapsto> d'), Inr (Some d')) \<and>
            pending d' = Some (pending_of d @
              [\<lparr>hgnc_id = gid, action = act,
                info = (case overrides of None \<Rightarrow> [] | Some x \<Rightarrow> x), symbol = label\<rparr>]) \<and>
            version d' = version d \<and> d' = d\<lparr>pending := pending d'\<rparr>))"
  by (auto simp add: add_pending_def valid_actions_def find_one_and_push_def pending_of_def Let_def
        split: option.splits)

theorem add_pending_appends_witness:
  "add_pending (store_v1 [gene_A, gene_B] [delete_B]) (panel_v1 [gene_A, gene_B] [delete_B])
       hgnc_gene_C ''remove'' None =
     (store_v1 [gene_A, gene_B] [delete_B], Inl ValueError) \<and>
   add_pending (store_v1 [gene_A, gene_B] [delete_B]) (panel_v1 [gene_A, gene_B] [delete_B])
       hgnc_gene_C ''add'' None =
     (store_v1 [gene_A, gene_B] [delete_B, add_C], Inr (Some (panel_v1 [gene_A, gene_B] [delete_B, add_C]))) \<and>
   pending (panel_v1 [gene_A, gene_B] [delete_B, add_C]) = Some ([delete_B] @ [add_C]) \<and>
   version (panel_v1 [gene_A, gene_B] [delete_B, add_C]) = version (panel_v1 [gene_A, gene_B] [delete_B])"
proof -
  have 1: "add_pending (store_v1 [gene_A, gene_B] [delete_B]) (panel_v1 [gene_A, gene_B] [delete_B])
       hgnc_gene_C ''remove'' None = (store_v1 [gene_A, gene_B] [delete_B], Inl ValueError)"
    using add_pending_appends [of "''remove''" "store_v1 [gene_A, gene_B] [delete_B]"
        "panel_v1 [gene_A, gene_B] [delete_B]" hgnc_gene_C None]
    by simp
  have "\<exists>d'. add_pending (store_v1 [gene_A, gene_B] [delete_B]) (panel_v1 [gene_A, gene_B] [delete_B])
          hgnc_gene_C ''add'' None = ((store_v1 [gene_A, gene_B] [delete_B])(1 \<mapsto> d'), Inr (Some d')) \<and>
        pending d' = Some (pending_of (panel_v1 [gene_A, gene_B] [delete_B]) @
              [\<lparr>hgnc_id = PInt 3, action = ''add'', info = [], symbol = PStr ''C''\<rparr>]) \<and>
        version d' = version (panel_v1 [gene_A, gene_B] [delete_B]) \<and>
        d' = (panel_v1 [gene_A, gene_B] [delete_B])\<lparr>pending := pending d'\<rparr>"
    using add_pending_appends [of "''add''" "store_v1 [gene_A, gene_B] [delete_B]"
        "panel_v1 [gene_A, gene_B] [delete_B]" hgnc_gene_C None "PInt 3" "PStr ''C''" 1
        "panel_v1 [gene_A, gene_B] [delete_B]"]
    by (simp add: hgnc_gene_C_def panel_v1_def store_v1_def)
  then obtain d' where d: "add_pending (store_v1 [gene_A, gene_B] [delete_B])
          (panel_v1 [gene_A, gene_B] [delete_B]) hgnc_gene_C ''add'' None =
          ((store_v1 [gene_A, gene_B] [delete_B])(1 \<mapsto> d'), Inr (Some d'))"
    and "pending d' = Some (pending_of (panel_v1 [gene_A, gene_B] [delete_B]) @
              [\<lparr>hgnc_id = PInt 3, action = ''add'', info = [], symbol = PStr ''C''\<rparr>])"
    and "d' = (panel_v1 [gene_A, gene_B] [delete_B])\<lparr>pending := pending d'\<rparr>"
    by blast
  then have "d' = panel_v1 [gene_A, gene_B] [delete_B, add_C]"
    by (simp add: panel_v1_def pending_of_def add_C_def)
  with d have 2: "add_pending (store_v1 [gene_A, gene_B] [delete_B])
       (panel_v1 [gene_A, gene_B] [delete_B]) hgnc_gene_C ''add'' None =
     (store_v1 [gene_A, gene_B] [delete_B, add_C], Inr (Some (panel_v1 [gene_A, gene_B] [delete_B, add_C])))"
    by (simp add: store_v1_def)
  from 1 2 show ?thesis by (simp add: panel_v1_def)
qed

section \<open>The genes of a panel file\<close>

lemma panel_file_eval:
  "parse_genes panel_file = Inr [parsed_gene 1 ''A'', parsed_gene 2 ''B'']"
  unfolding panel_file_def parsed_gene_def by code_simp

lemma panel_file_records:
  "parsed_lines 0 panel_file [] (CHR 0x09) =
     Inr [parsed_record 1 ''A'', parsed_record 2 ''B'', parsed_record 1 ''A2'']"
  unfolding panel_file_def parsed_record_def by code_simp

text \<open>
  C9: where \<open>parse_genes\<close> returns, the genes it returns are the genes of the lines of the
  file, without the key \<open>identifier\<close>, each kept exactly when no earlier line has its
  identifier, in the order of the file; their identifiers are pairwise distinct.
\<close>

theorem parse_genes_first_occurrences:
  assumes "parse_genes gene_lines = Inr gs"
  shows "\<exists>records. parsed_lines 0 gene_lines [] (CHR 0x09) = Inr records \<and>
           gs = map (AList.delete ''identifier'')
                     (first_occurrences (\<lambda>r. dict_get r ''identifier'') records) \<and>
           map identifier_of gs =
             map (\<lambda>r. dict_get r ''identifier'')
               (first_occurrences (\<lambda>r. dict_get r ''identifier'') records) \<and>
           distinct (map identifier_of gs)"
proof -
  let ?ident = "\<lambda>r. dict_get r ''identifier''"
  from assms parse_genes_loop_result [of 0 gene_lines "[]" "[]" "{}" "CHR 0x09" gs]
  obtain rs where rs: "parsed_lines 0 gene_lines [] (CHR 0x09) = Inr rs"
    and g: "gs = map (AList.delete ''identifier'') (first_occurrences ?ident rs)"
    by (auto simp add: parse_genes_def first_occurrences_def)
  have "\<forall>r\<in>set (first_occurrences ?ident rs).
          identifier_of (AList.delete ''identifier'' r) = ?ident r"
    using parsed_lines_shape [OF rs] unseen_subset [of ?ident "{}" rs]
    by (auto simp add: first_occurrences_def dict_get_def)
  then have m: "map identifier_of gs = map ?ident (first_occurrences ?ident rs)"
    unfolding g by (simp add: comp_def)
  have "distinct (map identifier_of gs)"
    unfolding m first_occurrences_def by (rule distinct_unseen)
  with rs g m show ?thesis by blast
qed


theorem parse_genes_first_occurrences_witness:
  "parse_genes panel_file = Inr [parsed_gene 1 ''A'', parsed_gene 2 ''B''] \<and>
   parsed_lines 0 panel_file [] (CHR 0x09) =
     Inr [parsed_record 1 ''A'', parsed_record 2 ''B'', parsed_record 1 ''A2''] \<and>
   first_occurrences (\<lambda>r. dict_get r ''identifier'')
     [parsed_record 1 ''A'', parsed_record 2 ''B'', parsed_record 1 ''A2''] =
     [parsed_record 1 ''A'', parsed_record 2 ''B''] \<and>
   map identifier_of [parsed_gene 1 ''A'', parsed_gene 2 ''B''] = [PInt 1, PInt 2] \<and>
   distinct (map identifier_of [parsed_gene 1 ''A'', parsed_gene 2 ''B''])"
proof -
  have f: "first_occurrences (\<lambda>r. dict_get r ''identifier'')
     [parsed_record 1 ''A'', parsed_record 2 ''B'', parsed_record 1 ''A2''] =
     [parsed_record 1 ''A'', parsed_record 2 ''B'']"
    by (simp add: first_occurrences_def unseen_Cons parsed_record_def dict_get_def)
  have i: "map identifier_of [parsed_gene 1 ''A'', parsed_gene 2 ''B''] = [PInt 1, PInt 2]"
    by (simp add: identifier_of_def parsed_gene_def dict_get_def)
  from parse_genes_first_occurrences [OF panel_file_eval]
  have "distinct (map identifier_of [parsed_gene 1 ''A'', parsed_gene 2 ''B''])" by blast
  with panel_file_eval panel_file_records f i show ?thesis by simp
qed

section \<open>The key of the symbol\<close>




end
